theory Spec2Isabelle
  imports Complex_Main "HOL-Library.AList"
begin

section \<open>Exceptions\<close>

text \<open>
  The Python exception classes that the driver raises, catches or lets through.
  A subclass counts as its caught base class (\<open>AdbTimeout\<close> is an \<open>AdbError\<close>);
  \<open>OtherException\<close> stands for every other subclass of \<open>Exception\<close>. An exception
  carries its class and the text that \<open>str(e)\<close> returns. What is not a subclass of
  \<open>Exception\<close> (an interrupt from the keyboard, the exit of the interpreter) is not a
  failure of a call and is left out.
\<close>

datatype exception_class =
    RequestException
  | AndroidDriverException
  | UDTError
  | AdbError
  | SocketTimeout
  | ValueError
  | AssertionError
  | ZeroDivisionError
  | OverflowError
  | KeyError
  | OtherException

datatype py_exception = Exc (exc_class: exception_class) (exc_msg: string)

section \<open>The strategy list of \<open>AndroidDriver._dump_hierarchy_raw\<close>\<close>

text \<open>
  The driver's only field that the dump touches is \<open>_try_dump_list\<close>, a list of bound
  methods. A strategy is identified by a value of type \<open>'f\<close> (two bound methods of the same
  object are equal exactly when they are the same method); what a strategy does when
  it is called during one dump request is given by \<open>run\<close>: it returns the payload or
  raises.
\<close>

record 'f android_driver =
  try_dump_list :: "'f list"

text \<open>The four strategies that \<open>__init__\<close> puts in the list (lines 33 to 38), in its order.\<close>

datatype strategy =
    Get_u2_hierarchy
  | Udt_dump_hierarchy
  | Get_appium_hierarchy
  | Device_dump_hierarchy

definition init_driver :: "strategy android_driver" where
  "init_driver =
     \<lparr>try_dump_list =
        [Get_u2_hierarchy, Udt_dump_hierarchy, Get_appium_hierarchy, Device_dump_hierarchy]\<rparr>"

text \<open>The classes named by the \<open>except\<close> clause of the loop (lines 95 to 101).\<close>

fun caught_by_dump :: "py_exception \<Rightarrow> bool" where
  "caught_by_dump (Exc c m) =
     (c = RequestException \<or> c = AndroidDriverException \<or> c = UDTError
      \<or> c = AdbError \<or> c = SocketTimeout)"

text \<open>\<open>list.remove(x)\<close>: drops the first element equal to \<open>x\<close>, \<open>ValueError\<close> when there is none.\<close>

definition list_remove :: "'a \<Rightarrow> 'a list \<Rightarrow> py_exception + 'a list" where
  "list_remove x xs =
     (if x \<in> set xs then Inr (remove1 x xs)
      else Inl (Exc ValueError ''list.remove(x): x not in list''))"

text \<open>
  The \<open>for\<close> loop over the snapshot \<open>self._try_dump_list[:]\<close>; the second list is the
  driver's list itself, which the loop body updates on success. The result pairs what the
  call returns or raises with the list afterwards.
\<close>

fun try_dump :: "('f \<Rightarrow> py_exception + string) \<Rightarrow> 'f list \<Rightarrow> 'f list
    \<Rightarrow> (py_exception + string) \<times> 'f list" where
  "try_dump run [] lst =
     (Inl (Exc AndroidDriverException ''Failed to dump hierarchy''), lst)"
| "try_dump run (dump_func # rest) lst =
     (case run dump_func of
        Inr result \<Rightarrow>
          (case list_remove dump_func lst of
             Inl e \<Rightarrow> (Inl e, lst)
           | Inr lst' \<Rightarrow> (Inr result, dump_func # lst'))
      | Inl e \<Rightarrow>
          if caught_by_dump e then try_dump run rest lst else (Inl e, lst))"

definition dump_hierarchy_raw :: "('f \<Rightarrow> py_exception + string) \<Rightarrow> 'f android_driver
    \<Rightarrow> (py_exception + string) \<times> 'f android_driver" where
  "dump_hierarchy_raw run d =
     (case try_dump run (try_dump_list d) (try_dump_list d) of
        (r, lst) \<Rightarrow> (r, d\<lparr>try_dump_list := lst\<rparr>))"

section \<open>Strings and integers\<close>

text \<open>
  A Python \<open>str\<close> is modelled by \<open>string\<close>, a list of characters with codes below 256; among
  these the decimal digits that the pattern \<open>\d\<close> matches and that \<open>int\<close> accepts are
  \<open>0\<close> to \<open>9\<close>. Python's integers are unbounded, so they are \<open>int\<close>.
\<close>

definition digit_char :: "nat \<Rightarrow> char" where
  "digit_char d = ''0123456789'' ! d"

text \<open>\<open>str(n)\<close> for an integer: decimal digits, most significant first, \<open>-\<close> before a negative.\<close>

fun str_nat :: "nat \<Rightarrow> string" where
  "str_nat n =
     (if n < 10 then [digit_char n] else str_nat (n div 10) @ [digit_char (n mod 10)])"

declare str_nat.simps [simp del]

definition py_str :: "int \<Rightarrow> string" where
  "py_str i = (if i < 0 then CHR ''-'' # str_nat (nat (- i)) else str_nat (nat i))"

text \<open>\<open>sep.join(xs)\<close>.\<close>

fun str_join :: "string \<Rightarrow> string list \<Rightarrow> string" where
  "str_join sep [] = []"
| "str_join sep [x] = x"
| "str_join sep (x # y # ys) = x @ sep @ str_join sep (y # ys)"

definition is_digit :: "char \<Rightarrow> bool" where
  "is_digit c = (c \<in> set ''0123456789'')"

definition digit_val :: "char \<Rightarrow> nat" where
  "digit_val c = of_char c - 48"

text \<open>
  \<open>re.findall(r"\d+", s)\<close>: the maximal runs of digits of \<open>s\<close>, left to right. The first
  argument of \<open>scan_digits\<close> is the run being read.
\<close>

fun scan_digits :: "string \<Rightarrow> string \<Rightarrow> string list" where
  "scan_digits cur [] = (if cur = [] then [] else [cur])"
| "scan_digits cur (c # cs) =
     (if is_digit c then scan_digits (cur @ [c]) cs
      else if cur = [] then scan_digits [] cs
      else cur # scan_digits [] cs)"

definition findall_digits :: "string \<Rightarrow> string list" where
  "findall_digits s = scan_digits [] s"

text \<open>
  \<open>int(s)\<close> on a run of digits, the only strings the parser passes to it. The value is
  read digit by digit. The interpreter refuses a string with more digits than
  \<open>sys.get_int_max_str_digits()\<close>, 4300 by default, leading zeros counted, with
  \<open>ValueError\<close>.
\<close>

definition int_max_str_digits :: nat where
  "int_max_str_digits = 4300"

definition digits_value :: "string \<Rightarrow> nat" where
  "digits_value s = foldl (\<lambda>acc c. 10 * acc + digit_val c) 0 s"

definition py_int :: "string \<Rightarrow> py_exception + int" where
  "py_int s =
     (if int_max_str_digits < length s
      then Inl (Exc ValueError
             (''Exceeds the limit (4300 digits) for integer string conversion: value has ''
                @ str_nat (length s)
                @ '' digits; use sys.set_int_max_str_digits() to increase the limit''))
      else Inr (int (digits_value s)))"

text \<open>\<open>list(map(int, runs))\<close>: the runs are converted in order, the first error is raised.\<close>

fun map_int :: "string list \<Rightarrow> py_exception + int list" where
  "map_int [] = Inr []"
| "map_int (r # rs) =
     (case py_int r of
        Inl e \<Rightarrow> Inl e
      | Inr v \<Rightarrow> (case map_int rs of Inl e \<Rightarrow> Inl e | Inr vs \<Rightarrow> Inr (v # vs)))"

section \<open>Floating point\<close>

text \<open>
  A finite Python \<open>float\<close> is an IEEE 754 binary64 number and is modelled by the rational
  it denotes. \<open>binary64 q\<close> is the number of the binary64 grid (53 significant bits, least
  exponent \<open>-1074\<close>) nearest to \<open>q\<close>, ties going to the even significand; it does not
  bound the exponent from above, the callers do.
\<close>

fun bit_length :: "nat \<Rightarrow> nat" where
  "bit_length n = (if n = 0 then 0 else Suc (bit_length (n div 2)))"

declare bit_length.simps [simp del]

definition pow2 :: "int \<Rightarrow> rat" where
  "pow2 e = (if 0 \<le> e then 2 ^ nat e else 1 / 2 ^ nat (- e))"

definition round_half_even :: "rat \<Rightarrow> int" where
  "round_half_even q =
     (let f = \<lfloor>q\<rfloor>; r = q - of_int f
      in if r < 1 / 2 then f else if 1 / 2 < r then f + 1
         else if even f then f else f + 1)"

text \<open>For \<open>q > 0\<close>, the exponent \<open>e\<close> with \<open>2 ^ e \<le> q < 2 ^ (e + 1)\<close>.\<close>

definition bin_exponent :: "rat \<Rightarrow> int" where
  "bin_exponent q =
     (if 1 \<le> q then int (bit_length (nat \<lfloor>q\<rfloor>)) - 1
      else - int (bit_length (nat (\<lceil>1 / q\<rceil> - 1))))"

definition binary64 :: "rat \<Rightarrow> rat" where
  "binary64 q =
     (if q = 0 then 0
      else let u = max (bin_exponent \<bar>q\<bar> - 52) (- 1074)
           in sgn q * of_int (round_half_even (\<bar>q\<bar> / pow2 u)) * pow2 u)"

text \<open>
  \<open>a / b\<close> on two integers: the correctly rounded quotient, \<open>ZeroDivisionError\<close> for a zero
  divisor, \<open>OverflowError\<close> when the rounded quotient is beyond the largest float.
\<close>

definition int_truediv :: "int \<Rightarrow> int \<Rightarrow> py_exception + rat" where
  "int_truediv a b =
     (if b = 0 then Inl (Exc ZeroDivisionError ''division by zero'')
      else let r = binary64 (of_int a / of_int b)
           in if pow2 1024 \<le> \<bar>r\<bar>
              then Inl (Exc OverflowError ''integer division result too large for a float'')
              else Inr r)"

text \<open>
  \<open>round(x, ndigits)\<close> on a float, for \<open>ndigits \<ge> 0\<close>: the decimal with \<open>ndigits\<close>
  fractional digits nearest to the exact value of \<open>x\<close> (ties to even), converted back to
  the nearest float.
\<close>

definition float_round :: "rat \<Rightarrow> nat \<Rightarrow> rat" where
  "float_round x ndigits =
     binary64 (of_int (round_half_even (x * 10 ^ ndigits)) / 10 ^ ndigits)"

section \<open>The hierarchy parser\<close>

text \<open>
  Modelled from the spec: the declaration of the class \<open>WindowSize\<close> (in
  \<open>uiauto_dev.model\<close>) is not among the sources. The parser reads its fields \<open>width\<close> and
  \<open>height\<close>, which the spec gives as integers.
\<close>

record window_size =
  width :: int
  height :: int

text \<open>
  An element of \<open>xml.etree.ElementTree\<close>: its tag, its attribute dictionary (the items in
  insertion order) and its child elements in document order.
\<close>

datatype element =
  Element (tag: string) (attrib: "(string \<times> string) list") (subelements: "element list")

text \<open>
  Modelled from the spec: the declaration of the class \<open>Node\<close> (in \<open>uiauto_dev.model\<close>) is
  not among the sources. Its fields are the keyword arguments of the constructor call on
  lines 199 to 205, with the types of the spec: \<open>key\<close> and \<open>name\<close> are strings,
  \<open>bounds\<close> is absent or the four floats left, top, right, bottom (the values of the
  \<open>map\<close> object that the parser passes), \<open>properties\<close> is a dictionary from strings to
  strings and \<open>children\<close> is the list of the nodes below, in document order.
\<close>

datatype node =
  Node (key: string) (name: string) (bounds: "(rat \<times> rat \<times> rat \<times> rat) option")
       (properties: "(string \<times> string) list") (children: "node list")

text \<open>
  Lines 189 to 198 of \<open>parse_xml_element\<close>, the normalisation of a \<open>bounds\<close> attribute:
  the digit runs of the string, their conversion to integers, the assertion that there
  are four, the four divisions in the order of the tuple, and the rounding of each
  quotient to 4 digits.
\<close>

definition parse_bounds :: "string \<Rightarrow> window_size
    \<Rightarrow> py_exception + (rat \<times> rat \<times> rat \<times> rat)" where
  "parse_bounds s wsize =
     (case map_int (findall_digits s) of
        Inl e \<Rightarrow> Inl e
      | Inr bs \<Rightarrow>
         if length bs \<noteq> 4 then Inl (Exc AssertionError [])
         else
           case int_truediv (bs ! 0) (width wsize) of Inl e \<Rightarrow> Inl e | Inr b0 \<Rightarrow>
           case int_truediv (bs ! 1) (height wsize) of Inl e \<Rightarrow> Inl e | Inr b1 \<Rightarrow>
           case int_truediv (bs ! 2) (width wsize) of Inl e \<Rightarrow> Inl e | Inr b2 \<Rightarrow>
           case int_truediv (bs ! 3) (height wsize) of Inl e \<Rightarrow> Inl e | Inr b3 \<Rightarrow>
             Inr (float_round b0 4, float_round b1 4, float_round b2 4, float_round b3 4))"

text \<open>
  The comprehension \<open>{key: d[key] for key in d}\<close>: the keys are visited in order, each
  looked up in \<open>d\<close> and stored in the new dictionary.
\<close>

fun dict_comprehension :: "(string \<times> string) list \<Rightarrow> string list \<Rightarrow> (string \<times> string) list
    \<Rightarrow> py_exception + (string \<times> string) list" where
  "dict_comprehension d [] acc = Inr acc"
| "dict_comprehension d (k # ks) acc =
     (case map_of d k of
        None \<Rightarrow> Inl (Exc KeyError k)
      | Some v \<Rightarrow> dict_comprehension d ks (AList.update k v acc))"

text \<open>
  \<open>parse_xml_element\<close>, with the loop over the children as \<open>parse_children\<close>, whose last
  argument is the index that \<open>enumerate\<close> gives the next child.
\<close>

fun parse_xml_element :: "element \<Rightarrow> window_size \<Rightarrow> int list \<Rightarrow> py_exception + node"
  and parse_children :: "element list \<Rightarrow> window_size \<Rightarrow> int list \<Rightarrow> nat
    \<Rightarrow> py_exception + node list" where
  "parse_xml_element (Element tg atts elems) wsize indexes =
     (let name0 = (if tg = ''node''
                   then (case map_of atts ''class'' of Some c \<Rightarrow> c | None \<Rightarrow> ''node'')
                   else tg)
      in case (case map_of atts ''bounds'' of
                 None \<Rightarrow> Inr None
               | Some s \<Rightarrow> map_sum id Some (parse_bounds s wsize)) of
           Inl e \<Rightarrow> Inl e
         | Inr bnds \<Rightarrow>
            (case dict_comprehension atts (map fst atts) [] of
               Inl e \<Rightarrow> Inl e
             | Inr props \<Rightarrow>
                (case parse_children elems wsize indexes 0 of
                   Inl e \<Rightarrow> Inl e
                 | Inr cs \<Rightarrow>
                     Inr (Node (str_join ''-'' (map py_str indexes)) name0 bnds props cs))))"
| "parse_children [] wsize indexes index = Inr []"
| "parse_children (child # rest) wsize indexes index =
     (case parse_xml_element child wsize (indexes @ [int index]) of
        Inl e \<Rightarrow> Inl e
      | Inr n \<Rightarrow>
         (case parse_children rest wsize indexes (Suc index) of
            Inl e \<Rightarrow> Inl e
          | Inr ns \<Rightarrow> Inr (n # ns)))"

text \<open>
  \<open>parse_xml\<close>. \<open>ElementTree.fromstring\<close> belongs to the standard library and is a
  parameter: it returns the root element of well-formed markup and raises otherwise.
  The call passes no \<open>indexes\<close>, so the default \<open>[0]\<close> is used.
\<close>

definition parse_xml :: "(string \<Rightarrow> py_exception + element) \<Rightarrow> string \<Rightarrow> window_size
    \<Rightarrow> py_exception + node" where
  "parse_xml fromstring xml_data wsize =
     (case fromstring xml_data of
        Inl e \<Rightarrow> Inl e
      | Inr root_element \<Rightarrow> parse_xml_element root_element wsize [0])"

subsection \<open>Walking the two trees\<close>

text \<open>The element, and the node, reached from the root by a path of child positions.\<close>

fun elem_at :: "element \<Rightarrow> nat list \<Rightarrow> element option" where
  "elem_at e [] = Some e"
| "elem_at e (i # p) =
     (if i < length (subelements e) then elem_at (subelements e ! i) p else None)"

fun node_at :: "node \<Rightarrow> nat list \<Rightarrow> node option" where
  "node_at n [] = Some n"
| "node_at n (i # p) =
     (if i < length (children n) then node_at (children n ! i) p else None)"





text \<open>The steps below the node with indexes \<open>indexes\<close>: a dash and a position for each.\<close>

definition key_steps :: "nat list \<Rightarrow> string" where
  "key_steps p = concat (map (\<lambda>i. CHR ''-'' # str_nat i) p)"

text \<open>The geometry string \<open>[x1,y1][x2,y2]\<close> of four non-negative integers.\<close>

definition bounds_string :: "nat \<Rightarrow> nat \<Rightarrow> nat \<Rightarrow> nat \<Rightarrow> string" where
  "bounds_string x1 y1 x2 y2 =
     ''['' @ str_nat x1 @ '','' @ str_nat y1 @ ''][''
       @ str_nat x2 @ '','' @ str_nat y2 @ '']''"

subsection \<open>A sample hierarchy\<close>

definition sample_root :: element where
  "sample_root =
     Element ''hierarchy'' [(''rotation'', ''0'')]
       [Element ''node''
          [(''class'', ''android.widget.FrameLayout''), (''bounds'', ''[0,0][1080,2340]'')]
          [Element ''node'' [(''text'', ''OK''), (''bounds'', ''[883,2222][1008,2265]'')] []],
        Element ''node'' [] []]"

definition sample_tree :: node where
  "sample_tree =
     Node ''0'' ''hierarchy'' None [(''rotation'', ''0'')]
       [Node ''0-0'' ''android.widget.FrameLayout'' (Some (0, 0, 1, 1))
          [(''class'', ''android.widget.FrameLayout''), (''bounds'', ''[0,0][1080,2340]'')]
          [Node ''0-0-0'' ''node''
             (Some (7364286110676235 / 9007199254740992, 4276618206151023 / 4503599627370496,
                    1050802383056221 / 1125899906842624, 4359034079331903 / 4503599627370496))
             [(''text'', ''OK''), (''bounds'', ''[883,2222][1008,2265]'')] []],
        Node ''0-1'' ''node'' None [] []]"

text \<open>The markup of \<open>sample_root\<close>, and a \<open>fromstring\<close> that knows this markup only.\<close>

definition sample_xml :: string where
  \<open>sample_xml = ''<hierarchy rotation="0"><node class="android.widget.FrameLayout" bounds="[0,0][1080,2340]"><node text="OK" bounds="[883,2222][1008,2265]"/></node><node/></hierarchy>''\<close>

definition sample_fromstring :: "string \<Rightarrow> py_exception + element" where
  "sample_fromstring xml_data =
     (if xml_data = sample_xml then Inr sample_root
      else Inl (Exc OtherException ''ParseError''))"

section \<open>The default argument as a shared object\<close>

text \<open>
  The default value \<open>[0]\<close> of \<open>indexes\<close> is one list object, made when the function is
  defined and passed to every call that gives no \<open>indexes\<close>. To see what the calls do to
  it, the lists of indexes live in a store: an address is a position of the store,
  \<open>indexes + [index]\<close> allocates a new list at the end, and the function reads its
  \<open>indexes\<close> from the store whenever the source reads the variable. The store after the
  call is returned with the result, also when the call raises.
\<close>

type_synonym store = "int list list"

definition default_indexes :: nat where
  "default_indexes = 0"

definition init_store :: store where
  "init_store = [[0]]"

definition list_concat :: "int list \<Rightarrow> int list \<Rightarrow> store \<Rightarrow> nat \<times> store" where
  "list_concat xs ys h = (length h, h @ [xs @ ys])"

fun parse_xml_element_st :: "element \<Rightarrow> window_size \<Rightarrow> nat \<Rightarrow> store
    \<Rightarrow> (py_exception + node) \<times> store"
  and parse_children_st :: "element list \<Rightarrow> window_size \<Rightarrow> nat \<Rightarrow> nat \<Rightarrow> store
    \<Rightarrow> (py_exception + node list) \<times> store" where
  "parse_xml_element_st (Element tg atts elems) wsize indexes h =
     (let name0 = (if tg = ''node''
                   then (case map_of atts ''class'' of Some c \<Rightarrow> c | None \<Rightarrow> ''node'')
                   else tg)
      in case (case map_of atts ''bounds'' of
                 None \<Rightarrow> Inr None
               | Some s \<Rightarrow> map_sum id Some (parse_bounds s wsize)) of
           Inl e \<Rightarrow> (Inl e, h)
         | Inr bnds \<Rightarrow>
            (let k = str_join ''-'' (map py_str (h ! indexes))
             in case dict_comprehension atts (map fst atts) [] of
                  Inl e \<Rightarrow> (Inl e, h)
                | Inr props \<Rightarrow>
                   (case parse_children_st elems wsize indexes 0 h of
                      (Inl e, h') \<Rightarrow> (Inl e, h')
                    | (Inr cs, h') \<Rightarrow> (Inr (Node k name0 bnds props cs), h'))))"
| "parse_children_st [] wsize indexes index h = (Inr [], h)"
| "parse_children_st (child # rest) wsize indexes index h =
     (case list_concat (h ! indexes) [int index] h of
        (child_indexes, h1) \<Rightarrow>
          (case parse_xml_element_st child wsize child_indexes h1 of
             (Inl e, h2) \<Rightarrow> (Inl e, h2)
           | (Inr n, h2) \<Rightarrow>
              (case parse_children_st rest wsize indexes (Suc index) h2 of
                 (Inl e, h3) \<Rightarrow> (Inl e, h3)
               | (Inr ns, h3) \<Rightarrow> (Inr (n # ns), h3))))"

definition parse_xml_st :: "(string \<Rightarrow> py_exception + element) \<Rightarrow> string \<Rightarrow> window_size
    \<Rightarrow> store \<Rightarrow> (py_exception + node) \<times> store" where
  "parse_xml_st fromstring xml_data wsize h =
     (case fromstring xml_data of
        Inl e \<Rightarrow> (Inl e, h)
      | Inr root_element \<Rightarrow> parse_xml_element_st root_element wsize default_indexes h)"

section \<open>Screenshot and shell\<close>

text \<open>
  The device behind the driver: what \<open>self.device.screenshot()\<close>, \<open>img.convert("RGB")\<close>
  and \<open>self.udt.screenshot()\<close> return or raise. A call of \<open>screenshot\<close> returns its
  result with the list of the device operations it has started, in order.
\<close>

datatype io_event = Device_screenshot | Udt_screenshot

record 'img device =
  device_screenshot :: "py_exception + 'img"
  image_convert :: "'img \<Rightarrow> py_exception + 'img"
  udt_screenshot :: "py_exception + 'img"

definition screenshot :: "'img device \<Rightarrow> int \<Rightarrow> (py_exception + 'img) \<times> io_event list" where
  "screenshot dev display_id =
     (if display_id > 0
      then (Inl (Exc ValueError ''multi-display is not supported yet''), [])
      else
        case (case device_screenshot dev of
                Inl e \<Rightarrow> Inl e
              | Inr img \<Rightarrow> image_convert dev img) of
          Inr rgb \<Rightarrow> (Inr rgb, [Device_screenshot])
        | Inl e \<Rightarrow>
            if exc_class e = AdbError
            then (udt_screenshot dev, [Device_screenshot, Udt_screenshot])
            else (Inl e, [Device_screenshot]))"

text \<open>
  What \<open>self.device.shell2\<close> returns: the exit code and the captured output. The function
  \<open>shell2\<close> is the device exchange itself, called with the command, \<open>rstrip=True\<close> and
  \<open>timeout=20\<close>.
\<close>

datatype shell_return = ShellReturn (returncode: int) (ret_output: string)

text \<open>
  Modelled from the spec: the declaration of the class \<open>ShellResponse\<close> (in
  \<open>uiauto_dev.model\<close>) is not among the sources. Its fields are the keyword arguments
  of the constructor calls in \<open>shell\<close>: \<open>output\<close>, a string (named \<open>shell_output\<close>
  here), and \<open>error\<close>, a string or \<open>None\<close>.
\<close>

record shell_response =
  shell_output :: string
  error :: "string option"

definition shell :: "(string \<Rightarrow> bool \<Rightarrow> nat \<Rightarrow> py_exception + shell_return) \<Rightarrow> string
    \<Rightarrow> py_exception + shell_response" where
  "shell shell2 command =
     (case (case shell2 command True 20 of
              Inl e \<Rightarrow> Inl e
            | Inr ret \<Rightarrow>
                if returncode ret = 0
                then Inr \<lparr>shell_output = ret_output ret, error = None\<rparr>
                else Inr \<lparr>shell_output = [],
                          error = Some (''exit:'' @ py_str (returncode ret)
                                          @ '', output:'' @ ret_output ret)\<rparr>) of
        Inr response \<Rightarrow> Inr response
      | Inl e \<Rightarrow> Inr \<lparr>shell_output = [], error = Some (''adb error: '' @ exc_msg e)\<rparr>)"

section \<open>Properties of the strategy list\<close>

lemma try_dump_failure_keeps_list:
  "try_dump run snap lst = (Inl e, lst') \<Longrightarrow> lst' = lst"
  by (induction snap) (auto simp: list_remove_def split: sum.splits if_splits)

lemma try_dump_success:
  "try_dump run snap lst = (Inr p, lst') \<Longrightarrow> set snap \<subseteq> set lst \<Longrightarrow>
   \<exists>f \<in> set snap. run f = Inr p \<and> lst' = f # remove1 f lst"
  by (induction snap) (auto simp: list_remove_def split: sum.splits if_splits)

lemma try_dump_all_caught:
  "\<forall>f \<in> set snap. \<exists>e. run f = Inl e \<and> caught_by_dump e \<Longrightarrow>
   try_dump run snap lst =
     (Inl (Exc AndroidDriverException ''Failed to dump hierarchy''), lst)"
  by (induction snap) auto

lemma filter_neq_remove1:
  "filter (\<lambda>g. g \<noteq> f) (remove1 f xs) = filter (\<lambda>g. g \<noteq> f) xs"
  by (induction xs) auto


text \<open>
  C1. With the list \<open>[A, B, C]\<close>, when \<open>A\<close> raises a caught exception and \<open>B\<close> returns,
  the dump returns the payload of \<open>B\<close> and the list becomes \<open>[B, A, C]\<close>; when then \<open>B\<close>
  raises a caught exception and \<open>A\<close> returns, the list becomes \<open>[A, B, C]\<close> again. In
  general a dump that returns a payload got it from a strategy \<open>f\<close> of the list, the list
  afterwards is \<open>f\<close> followed by the old list without its first \<open>f\<close>, so the strategies
  other than \<open>f\<close> keep their relative order; and a dump that raises leaves the driver as
  it was.
\<close>

theorem C1_success_promotes_to_front:
  "(caught_by_dump e1 \<and> run1 A = Inl e1 \<and> run1 B = Inr p \<longrightarrow>
      dump_hierarchy_raw run1 \<lparr>try_dump_list = [A, B, C]\<rparr>
        = (Inr p, \<lparr>try_dump_list = [B, A, C]\<rparr>))
   \<and> (caught_by_dump e2 \<and> run2 B = Inl e2 \<and> run2 A = Inr q \<longrightarrow>
      dump_hierarchy_raw run2 \<lparr>try_dump_list = [B, A, C]\<rparr>
        = (Inr q, \<lparr>try_dump_list = [A, B, C]\<rparr>))
   \<and> (dump_hierarchy_raw run d = (Inr r, d') \<longrightarrow>
      (\<exists>f \<in> set (try_dump_list d). run f = Inr r
         \<and> try_dump_list d' = f # remove1 f (try_dump_list d)
         \<and> filter (\<lambda>g. g \<noteq> f) (try_dump_list d')
             = filter (\<lambda>g. g \<noteq> f) (try_dump_list d)
         \<and> length (try_dump_list d') = length (try_dump_list d)))
   \<and> (dump_hierarchy_raw run' c = (Inl e, c') \<longrightarrow> c' = c)"
proof (intro conjI impI)
  assume a: "caught_by_dump e1 \<and> run1 A = Inl e1 \<and> run1 B = Inr p"
  then have "A \<noteq> B" by auto
  with a show "dump_hierarchy_raw run1 \<lparr>try_dump_list = [A, B, C]\<rparr>
      = (Inr p, \<lparr>try_dump_list = [B, A, C]\<rparr>)"
    by (simp add: dump_hierarchy_raw_def list_remove_def)
next
  assume a: "caught_by_dump e2 \<and> run2 B = Inl e2 \<and> run2 A = Inr q"
  then have "A \<noteq> B" by auto
  with a show "dump_hierarchy_raw run2 \<lparr>try_dump_list = [B, A, C]\<rparr>
      = (Inr q, \<lparr>try_dump_list = [A, B, C]\<rparr>)"
    by (simp add: dump_hierarchy_raw_def list_remove_def)
next
  assume a: "dump_hierarchy_raw run d = (Inr r, d')"
  obtain lst where t: "try_dump run (try_dump_list d) (try_dump_list d) = (Inr r, lst)"
    and d': "d' = d\<lparr>try_dump_list := lst\<rparr>"
    using a by (auto simp: dump_hierarchy_raw_def split: prod.splits)
  from try_dump_success [OF t] obtain f where f: "f \<in> set (try_dump_list d)"
    "run f = Inr r" "lst = f # remove1 f (try_dump_list d)"
    by auto
  have "filter (\<lambda>g. g \<noteq> f) lst = filter (\<lambda>g. g \<noteq> f) (try_dump_list d)"
    using f(3) by (simp add: filter_neq_remove1)
  moreover have "length lst = length (try_dump_list d)"
    using f(1,3) by (simp add: length_remove1) (cases "try_dump_list d", auto)
  ultimately show "\<exists>f \<in> set (try_dump_list d). run f = Inr r
         \<and> try_dump_list d' = f # remove1 f (try_dump_list d)
         \<and> filter (\<lambda>g. g \<noteq> f) (try_dump_list d')
             = filter (\<lambda>g. g \<noteq> f) (try_dump_list d)
         \<and> length (try_dump_list d') = length (try_dump_list d)"
    using f d' by auto
next
  assume a: "dump_hierarchy_raw run' c = (Inl e, c')"
  then obtain lst where t: "try_dump run' (try_dump_list c) (try_dump_list c) = (Inl e, lst)"
    and c': "c' = c\<lparr>try_dump_list := lst\<rparr>"
    by (auto simp: dump_hierarchy_raw_def split: prod.splits)
  from try_dump_failure_keeps_list [OF t] c' show "c' = c" by simp
qed

theorem C1_success_promotes_to_front_witness:
  "dump_hierarchy_raw
     (\<lambda>f. if f = Udt_dump_hierarchy then Inr ''<hierarchy/>''
          else Inl (Exc RequestException ''connection refused''))
     \<lparr>try_dump_list = [Get_u2_hierarchy, Udt_dump_hierarchy, Device_dump_hierarchy]\<rparr>
   = (Inr ''<hierarchy/>'',
      \<lparr>try_dump_list = [Udt_dump_hierarchy, Get_u2_hierarchy, Device_dump_hierarchy]\<rparr>)
   \<and> dump_hierarchy_raw
     (\<lambda>f. if f = Get_u2_hierarchy then Inr ''<hierarchy><node/></hierarchy>''
          else Inl (Exc UDTError ''udt not running''))
     \<lparr>try_dump_list = [Udt_dump_hierarchy, Get_u2_hierarchy, Device_dump_hierarchy]\<rparr>
   = (Inr ''<hierarchy><node/></hierarchy>'',
      \<lparr>try_dump_list = [Get_u2_hierarchy, Udt_dump_hierarchy, Device_dump_hierarchy]\<rparr>)
   \<and> dump_hierarchy_raw
     (\<lambda>f. if f = Device_dump_hierarchy then Inr ''<hierarchy/>''
          else Inl (Exc AdbError ''device offline''))
     init_driver
   = (Inr ''<hierarchy/>'',
      \<lparr>try_dump_list =
         [Device_dump_hierarchy, Get_u2_hierarchy, Udt_dump_hierarchy, Get_appium_hierarchy]\<rparr>)
   \<and> (\<exists>f \<in> set (try_dump_list init_driver).
         [Device_dump_hierarchy, Get_u2_hierarchy, Udt_dump_hierarchy, Get_appium_hierarchy]
           = f # remove1 f (try_dump_list init_driver))
   \<and> dump_hierarchy_raw
     (\<lambda>f. if f = Udt_dump_hierarchy then Inl (Exc KeyError ''result'')
          else Inl (Exc AdbError ''device offline''))
     init_driver
   = (Inl (Exc KeyError ''result''), init_driver)"
proof -
  let ?run1 = "\<lambda>f. if f = Udt_dump_hierarchy then Inr ''<hierarchy/>''
          else Inl (Exc RequestException ''connection refused'')"
  let ?run2 = "\<lambda>f. if f = Get_u2_hierarchy then Inr ''<hierarchy><node/></hierarchy>''
          else Inl (Exc UDTError ''udt not running'')"
  let ?run3 = "\<lambda>f. if f = Device_dump_hierarchy then Inr ''<hierarchy/>''
          else Inl (Exc AdbError ''device offline'')"
  let ?run4 = "\<lambda>f. if f = Udt_dump_hierarchy then Inl (Exc KeyError ''result'')
          else Inl (Exc AdbError ''device offline'')"
  let ?d3 = "\<lparr>try_dump_list =
         [Device_dump_hierarchy, Get_u2_hierarchy, Udt_dump_hierarchy, Get_appium_hierarchy]\<rparr>"
  have r3: "dump_hierarchy_raw ?run3 init_driver = (Inr ''<hierarchy/>'', ?d3)"
    by (simp add: dump_hierarchy_raw_def init_driver_def list_remove_def)
  have r4: "dump_hierarchy_raw ?run4 init_driver = (Inl (Exc KeyError ''result''), init_driver)"
    by (simp add: dump_hierarchy_raw_def init_driver_def list_remove_def)
  from C1_success_promotes_to_front
    [of "Exc RequestException ''connection refused''" ?run1
        Get_u2_hierarchy Udt_dump_hierarchy "''<hierarchy/>''" Device_dump_hierarchy
        "Exc UDTError ''udt not running''" ?run2 "''<hierarchy><node/></hierarchy>''"
        ?run3 init_driver "''<hierarchy/>''" ?d3
        ?run4 init_driver "Exc KeyError ''result''" init_driver]
  show ?thesis using r3 r4 by auto
qed

text \<open>
  C2. When every strategy of the list raises an exception that the loop catches, the
  dump raises \<open>AndroidDriverException("Failed to dump hierarchy")\<close> and the driver, with its
  strategy list, is exactly as before the call.
\<close>

theorem C2_all_fail_keeps_order:
  "\<forall>f \<in> set (try_dump_list d). \<exists>e. run f = Inl e \<and> caught_by_dump e \<Longrightarrow>
   dump_hierarchy_raw run d
     = (Inl (Exc AndroidDriverException ''Failed to dump hierarchy''), d)"
  by (simp add: dump_hierarchy_raw_def try_dump_all_caught)

theorem C2_all_fail_keeps_order_witness:
  "dump_hierarchy_raw (\<lambda>f. Inl (Exc SocketTimeout ''timed out'')) init_driver
     = (Inl (Exc AndroidDriverException ''Failed to dump hierarchy''), init_driver)"
  using C2_all_fail_keeps_order [of init_driver "\<lambda>f. Inl (Exc SocketTimeout ''timed out'')"]
  by simp

section \<open>Properties of strings and keys\<close>

lemma lt10_cases: "(d::nat) < 10 \<Longrightarrow> d \<in> {0, 1, 2, 3, 4, 5, 6, 7, 8, 9}"
  by auto

lemma digit_char_props:
  assumes "d < 10"
  shows "is_digit (digit_char d)" and "digit_val (digit_char d) = d"
    and "digit_char d \<noteq> CHR ''-''"
  using lt10_cases [OF assms]
  by (auto simp: digit_char_def is_digit_def digit_val_def)

lemma str_nat_digits: "\<forall>c \<in> set (str_nat n). is_digit c"
proof (induction n rule: str_nat.induct)
  case (1 n)
  show ?case
  proof (cases "n < 10")
    case True
    then show ?thesis by (subst str_nat.simps) (simp add: digit_char_props)
  next
    case False
    then show ?thesis using 1
      by (subst str_nat.simps) (simp add: digit_char_props)
  qed
qed

lemma str_nat_nonempty: "str_nat n \<noteq> []"
  by (subst str_nat.simps) simp

lemma digits_value_str_nat: "digits_value (str_nat n) = n"
proof -
  have "foldl (\<lambda>acc c. 10 * acc + digit_val c) 0 (str_nat n) = n"
  proof (induction n rule: str_nat.induct)
    case (1 n)
    show ?case
    proof (cases "n < 10")
      case True
      then show ?thesis by (subst str_nat.simps) (simp add: digit_char_props)
    next
      case False
      then show ?thesis using 1
        by (subst str_nat.simps) (simp add: digit_char_props)
    qed
  qed
  then show ?thesis by (simp add: digits_value_def)
qed


lemma is_digit_not_dash: "is_digit c \<Longrightarrow> c \<noteq> CHR ''-''"
  by (auto simp: is_digit_def)



lemma key_steps_simps [simp]: "key_steps [] = []" "key_steps (i # p) = CHR ''-'' # str_nat i @ key_steps p"
  by (simp_all add: key_steps_def)






section \<open>Properties of the parser\<close>

lemma dict_comprehension_ok:
  "set ks \<subseteq> fst ` set d \<Longrightarrow>
   \<exists>acc'. dict_comprehension d ks acc = Inr acc'
      \<and> map_of acc' = (\<lambda>k. if k \<in> set ks then map_of d k else map_of acc k)"
proof (induction ks arbitrary: acc)
  case Nil
  then show ?case by simp
next
  case (Cons k ks)
  then obtain v where v: "map_of d k = Some v"
    by (cases "map_of d k") (auto simp: map_of_eq_None_iff)
  from Cons.prems have "set ks \<subseteq> fst ` set d" by simp
  from Cons.IH [OF this, of "AList.update k v acc"] obtain acc' where
    a: "dict_comprehension d ks (AList.update k v acc) = Inr acc'"
    and m: "map_of acc' = (\<lambda>k'. if k' \<in> set ks then map_of d k' else map_of (AList.update k v acc) k')"
    by blast
  have "map_of acc' = (\<lambda>k'. if k' \<in> set (k # ks) then map_of d k' else map_of acc k')"
    unfolding m using v by (auto simp: update_conv' fun_eq_iff)
  with a v show ?case by simp
qed

lemma dict_comprehension_copy:
  "\<exists>props. dict_comprehension d (map fst d) [] = Inr props \<and> map_of props = map_of d"
proof -
  from dict_comprehension_ok [of "map fst d" d "[]"] obtain props where
    p: "dict_comprehension d (map fst d) [] = Inr props"
    and m: "map_of props = (\<lambda>k. if k \<in> set (map fst d) then map_of d k else map_of [] k)"
    by auto
  have "map_of props = map_of d"
    unfolding m by (auto simp: fun_eq_iff map_of_eq_None_iff [symmetric] simp del: map_of_eq_None_iff)
  with p show ?thesis by blast
qed

lemma dict_comprehension_distinct_aux:
  "distinct (map fst (acc @ rest)) \<Longrightarrow> set rest \<subseteq> set d \<Longrightarrow> distinct (map fst d) \<Longrightarrow>
   dict_comprehension d (map fst rest) acc = Inr (acc @ rest)"
proof (induction rest arbitrary: acc)
  case Nil
  then show ?case by simp
next
  case (Cons kv rest)
  obtain k v where kv: "kv = (k, v)" by (cases kv)
  with Cons.prems have v: "map_of d k = Some v" by simp
  from Cons.prems kv have nk: "k \<notin> fst ` set acc" by auto
  then have u: "AList.update k v acc = acc @ [(k, v)]"
    by (induction acc) auto
  from Cons.prems kv have "distinct (map fst ((acc @ [(k, v)]) @ rest))" by simp
  from Cons.IH [OF this] Cons.prems
  have "dict_comprehension d (map fst rest) (acc @ [(k, v)]) = Inr ((acc @ [(k, v)]) @ rest)"
    by simp
  with v u kv show ?case by simp
qed

lemma dict_comprehension_distinct:
  "distinct (map fst d) \<Longrightarrow> dict_comprehension d (map fst d) [] = Inr d"
  using dict_comprehension_distinct_aux [of "[]" d d] by simp

lemma parse_children_spec:
  "parse_children els w idxs k = Inr ns \<Longrightarrow>
   length ns = length els
   \<and> (\<forall>i < length els. parse_xml_element (els ! i) w (idxs @ [int (k + i)]) = Inr (ns ! i))"
proof (induction els arbitrary: k ns)
  case Nil
  then show ?case by simp
next
  case (Cons e els)
  from Cons.prems obtain n ns' where
    n: "parse_xml_element e w (idxs @ [int k]) = Inr n"
    and ns': "parse_children els w idxs (Suc k) = Inr ns'"
    and ns: "ns = n # ns'"
    by (auto split: sum.splits)
  from Cons.IH [OF ns'] have l: "length ns' = length els"
    and r: "\<forall>i < length els. parse_xml_element (els ! i) w (idxs @ [int (Suc k + i)]) = Inr (ns' ! i)"
    by auto
  show ?case
  proof (intro conjI allI impI)
    show "length ns = length (e # els)" using l ns by simp
  next
    fix i assume "i < length (e # els)"
    then show "parse_xml_element ((e # els) ! i) w (idxs @ [int (k + i)]) = Inr (ns ! i)"
      using n r ns by (cases i) auto
  qed
qed

lemma parse_xml_element_fields:
  assumes "parse_xml_element e w idxs = Inr t"
  shows "key t = str_join ''-'' (map py_str idxs)"
    and "parse_children (subelements e) w idxs 0 = Inr (children t)"
    and "map_of (properties t) = map_of (attrib e)"
    and "distinct (map fst (attrib e)) \<Longrightarrow> properties t = attrib e"
    and "name t = (if tag e = ''node''
                   then (case map_of (attrib e) ''class'' of Some c \<Rightarrow> c | None \<Rightarrow> ''node'')
                   else tag e)"
    and "map_of (attrib e) ''bounds'' = None \<Longrightarrow> bounds t = None"
    and "map_of (attrib e) ''bounds'' = Some s \<Longrightarrow> parse_bounds s w = Inr b \<Longrightarrow> bounds t = Some b"
proof -
  obtain tg atts els where e: "e = Element tg atts els" by (cases e)
  from dict_comprehension_copy [of atts] obtain props where
    p: "dict_comprehension atts (map fst atts) [] = Inr props" "map_of props = map_of atts"
    by blast
  from assms e p obtain bnds cs where
    t: "t = Node (str_join ''-'' (map py_str idxs))
          (if tg = ''node'' then (case map_of atts ''class'' of Some c \<Rightarrow> c | None \<Rightarrow> ''node'') else tg)
          bnds props cs"
    and cs: "parse_children els w idxs 0 = Inr cs"
    and b: "(case map_of atts ''bounds'' of None \<Rightarrow> Inr None
               | Some s \<Rightarrow> map_sum id Some (parse_bounds s w)) = Inr bnds"
    by (auto simp: Let_def split: sum.splits)
  show "key t = str_join ''-'' (map py_str idxs)" using t by simp
  show "parse_children (subelements e) w idxs 0 = Inr (children t)" using t cs e by simp
  show "map_of (properties t) = map_of (attrib e)" using t p e by simp
  show "distinct (map fst (attrib e)) \<Longrightarrow> properties t = attrib e"
    using t p e dict_comprehension_distinct [of atts] by simp
  show "name t = (if tag e = ''node''
                   then (case map_of (attrib e) ''class'' of Some c \<Rightarrow> c | None \<Rightarrow> ''node'')
                   else tag e)" using t e by simp
  show "map_of (attrib e) ''bounds'' = None \<Longrightarrow> bounds t = None" using t e b by simp
  show "map_of (attrib e) ''bounds'' = Some s \<Longrightarrow> parse_bounds s w = Inr b \<Longrightarrow> bounds t = Some b"
    using t e b by auto
qed

lemma node_at_spec:
  "parse_xml_element e w idxs = Inr t \<Longrightarrow> node_at t p = Some n \<Longrightarrow>
   \<exists>e'. elem_at e p = Some e' \<and> parse_xml_element e' w (idxs @ map int p) = Inr n"
proof (induction p arbitrary: e t idxs)
  case Nil
  then show ?case by simp
next
  case (Cons i p)
  from parse_xml_element_fields(2) [OF Cons.prems(1)]
  have c: "parse_children (subelements e) w idxs 0 = Inr (children t)" .
  from parse_children_spec [OF c] have l: "length (children t) = length (subelements e)"
    and r: "\<forall>i < length (subelements e).
        parse_xml_element (subelements e ! i) w (idxs @ [int i]) = Inr (children t ! i)"
    by auto
  from Cons.prems(2) have i: "i < length (children t)" and n: "node_at (children t ! i) p = Some n"
    by (auto split: if_splits)
  from r i l have "parse_xml_element (subelements e ! i) w (idxs @ [int i]) = Inr (children t ! i)"
    by simp
  from Cons.IH [OF this n] i l show ?case by simp
qed








subsection \<open>Evaluating the model on numerals\<close>

lemma bit_length_numeral:
  "bit_length 0 = 0" "bit_length 1 = 1" "bit_length (Suc 0) = 1"
  "bit_length (numeral n) = Suc (bit_length (numeral n div 2))"
  by (simp_all add: bit_length.simps)

lemma floor_numeral_quotient: "\<lfloor>numeral a / numeral b :: rat\<rfloor> = numeral a div numeral b"
  using floor_divide_of_int_eq [of "numeral a" "numeral b", where ?'a = rat] by simp

lemma ceiling_numeral_quotient:
  "\<lceil>numeral a / numeral b :: rat\<rceil> = - ((- numeral a) div numeral b)"
  using floor_divide_of_int_eq [of "- numeral a" "numeral b", where ?'a = rat]
  by (simp add: ceiling_def)

lemmas float_eval = binary64_def bin_exponent_def round_half_even_def pow2_def Let_def
  bit_length_numeral floor_numeral_quotient ceiling_numeral_quotient
  int_truediv_def float_round_def

lemmas bounds_eval = parse_bounds_def findall_digits_def is_digit_def py_int_def
  int_max_str_digits_def digits_value_def digit_val_def

lemmas key_eval = py_str_def str_nat.simps digit_char_def

lemma sample_bounds:
  "parse_bounds ''[0,0][1080,2340]'' \<lparr>width = 1080, height = 2340\<rparr> = Inr (0, 0, 1, 1)"
  "parse_bounds ''[883,2222][1008,2265]'' \<lparr>width = 1080, height = 2340\<rparr> =
     Inr (7364286110676235 / 9007199254740992, 4276618206151023 / 4503599627370496,
          1050802383056221 / 1125899906842624, 4359034079331903 / 4503599627370496)"
  by (simp_all add: bounds_eval float_eval)

lemma sample_parse:
  "parse_xml_element sample_root \<lparr>width = 1080, height = 2340\<rparr> [0] = Inr sample_tree"
  by (simp add: sample_root_def sample_tree_def sample_bounds key_eval)


text \<open>
  C5 (as amended). For every node of a parsed tree, the element at the same position
  has the same attribute mapping as the node's \<open>properties\<close>: each attribute is there
  with its value, \<open>bounds\<close> included, and nothing else is; when the attribute names are
  distinct, as in a dictionary, \<open>properties\<close> is the attribute list itself.
\<close>

theorem C5_properties_copy_every_attribute:
  assumes "fromstring xml_data = Inr root_element"
    and "parse_xml fromstring xml_data wsize = Inr t"
    and "node_at t p = Some n"
  shows "\<exists>e. elem_at root_element p = Some e
           \<and> map_of (properties n) = map_of (attrib e)
           \<and> (distinct (map fst (attrib e)) \<longrightarrow> properties n = attrib e)"
proof -
  from assms have t: "parse_xml_element root_element wsize [0] = Inr t"
    by (simp add: parse_xml_def)
  from node_at_spec [OF t assms(3)] obtain e where
    e: "elem_at root_element p = Some e"
    and n: "parse_xml_element e wsize ([0] @ map int p) = Inr n" by blast
  from parse_xml_element_fields(3,4) [OF n] e show ?thesis by blast
qed

theorem C5_properties_copy_every_attribute_witness:
  "parse_xml sample_fromstring sample_xml
      \<lparr>width = 1080, height = 2340\<rparr> = Inr sample_tree
   \<and> node_at sample_tree [0, 0]
       = Some (Node ''0-0-0'' ''node''
             (Some (7364286110676235 / 9007199254740992, 4276618206151023 / 4503599627370496,
                    1050802383056221 / 1125899906842624, 4359034079331903 / 4503599627370496))
             [(''text'', ''OK''), (''bounds'', ''[883,2222][1008,2265]'')] [])
   \<and> elem_at sample_root [0, 0]
       = Some (Element ''node'' [(''text'', ''OK''), (''bounds'', ''[883,2222][1008,2265]'')] [])"
proof -
  let ?x = sample_xml
  let ?w = "\<lparr>width = 1080, height = 2340\<rparr>"
  let ?n = "Node ''0-0-0'' ''node''
             (Some (7364286110676235 / 9007199254740992, 4276618206151023 / 4503599627370496,
                    1050802383056221 / 1125899906842624, 4359034079331903 / 4503599627370496))
             [(''text'', ''OK''), (''bounds'', ''[883,2222][1008,2265]'')] []"
  have h1: "sample_fromstring ?x = Inr sample_root" by (simp add: sample_fromstring_def)
  have h2: "parse_xml sample_fromstring ?x ?w = Inr sample_tree"
    by (simp add: parse_xml_def h1 sample_parse)
  have h3: "node_at sample_tree [0, 0] = Some ?n" by (simp add: sample_tree_def)
  from C5_properties_copy_every_attribute [OF h1 h2 h3]
  obtain e where "elem_at sample_root [0, 0] = Some e" "distinct (map fst (attrib e)) \<longrightarrow> properties ?n = attrib e"
    by blast
  then have "elem_at sample_root [0, 0]
       = Some (Element ''node'' [(''text'', ''OK''), (''bounds'', ''[883,2222][1008,2265]'')] [])"
    by (simp add: sample_root_def)
  with h2 h3 show ?thesis by simp
qed

text \<open>
  C5 as stated fails: the \<open>properties\<close> of a node whose element has a \<open>bounds\<close>
  attribute keep the entry \<open>bounds\<close>, with the geometry string as its value.
\<close>

theorem C5_bounds_kept_in_properties:
  "parse_xml_element
      (Element ''node'' [(''text'', ''OK''), (''bounds'', ''[0,0][1080,2340]'')] [])
      \<lparr>width = 1080, height = 2340\<rparr> [0]
     = Inr (Node ''0'' ''node'' (Some (0, 0, 1, 1))
              [(''text'', ''OK''), (''bounds'', ''[0,0][1080,2340]'')] [])
   \<and> map_of (properties (Node ''0'' ''node'' (Some (0, 0, 1, 1))
              [(''text'', ''OK''), (''bounds'', ''[0,0][1080,2340]'')] [])) ''bounds''
     = Some ''[0,0][1080,2340]''"
  by (simp add: sample_bounds key_eval)

section \<open>Properties of screenshot and shell\<close>

text \<open>
  C6 as stated fails: with the display id \<open>-1\<close> the guard \<open>id > 0\<close> lets the call
  through, and the device capture runs and returns its picture.
\<close>

theorem C6_negative_display_is_captured:
  "screenshot \<lparr>device_screenshot = Inr ''png'', image_convert = (\<lambda>img. Inr (''RGB:'' @ img)),
                udt_screenshot = Inr ''udt''\<rparr> (- 1)
     = (Inr ''RGB:png'', [Device_screenshot])"
  by (simp add: screenshot_def)

text \<open>
  C6 (as amended). For every display id greater than 0, \<open>screenshot\<close> raises
  \<open>ValueError("multi-display is not supported yet")\<close> and has started no device operation.
  For every display id that is 0 or negative the call does what it does for 0: its first
  device operation is the capture.
\<close>

theorem C6_positive_display_rejected_before_io:
  "(0 < display_id \<longrightarrow>
      screenshot dev display_id
        = (Inl (Exc ValueError ''multi-display is not supported yet''), []))
   \<and> (display_id \<le> 0 \<longrightarrow>
      screenshot dev display_id = screenshot dev 0
      \<and> hd (snd (screenshot dev display_id)) = Device_screenshot
      \<and> snd (screenshot dev display_id) \<noteq> [])"
  by (auto simp: screenshot_def split: sum.splits)

theorem C6_positive_display_rejected_before_io_witness:
  "screenshot \<lparr>device_screenshot = Inr ''png'', image_convert = (\<lambda>img. Inr (''RGB:'' @ img)),
                udt_screenshot = Inr ''udt''\<rparr> 1
     = (Inl (Exc ValueError ''multi-display is not supported yet''), [])
   \<and> screenshot \<lparr>device_screenshot = Inl (Exc AdbError ''closed''),
                image_convert = (\<lambda>img. Inr (''RGB:'' @ img)),
                udt_screenshot = Inr ''udt''\<rparr> 0
     = (Inr ''udt'', [Device_screenshot, Udt_screenshot])"
  using C6_positive_display_rejected_before_io
    [of 1 "\<lparr>device_screenshot = Inr ''png'', image_convert = (\<lambda>img. Inr (''RGB:'' @ img)),
                udt_screenshot = Inr ''udt''\<rparr>"]
    C6_positive_display_rejected_before_io
    [of 0 "\<lparr>device_screenshot = Inl (Exc AdbError ''closed''),
                image_convert = (\<lambda>img. Inr (''RGB:'' @ img)),
                udt_screenshot = Inr ''udt''\<rparr>"]
  by (simp add: screenshot_def)

text \<open>
  C7. When the device exchange returns exit code 0, \<open>shell\<close> returns the captured
  output and no error; when it returns another exit code, \<open>shell\<close> returns an empty
  output and the error \<open>exit:<code>, output:<output>\<close>; when the exchange raises,
  \<open>shell\<close> returns an empty output and the error \<open>adb error: <cause>\<close>; and whatever
  the exchange does, \<open>shell\<close> returns a response and raises nothing.
\<close>

theorem C7_shell_folds_every_outcome:
  "(shell2 command True 20 = Inr ret \<and> returncode ret = 0 \<longrightarrow>
      shell shell2 command = Inr \<lparr>shell_output = ret_output ret, error = None\<rparr>)
   \<and> (shell2 command True 20 = Inr ret \<and> returncode ret \<noteq> 0 \<longrightarrow>
      shell shell2 command
        = Inr \<lparr>shell_output = [],
               error = Some (''exit:'' @ py_str (returncode ret)
                               @ '', output:'' @ ret_output ret)\<rparr>)
   \<and> (shell2 command True 20 = Inl e \<longrightarrow>
      shell shell2 command
        = Inr \<lparr>shell_output = [], error = Some (''adb error: '' @ exc_msg e)\<rparr>)
   \<and> (\<exists>response. shell shell2' command' = Inr response)"
  by (auto simp: shell_def split: sum.splits)

theorem C7_shell_folds_every_outcome_witness:
  "shell (\<lambda>c r t. if c = ''echo ok'' then Inr (ShellReturn 0 ''ok'')
                    else if c = ''false'' then Inr (ShellReturn 1 '''')
                    else Inl (Exc AdbError ''device offline'')) ''echo ok''
     = Inr \<lparr>shell_output = ''ok'', error = None\<rparr>
   \<and> shell (\<lambda>c r t. if c = ''echo ok'' then Inr (ShellReturn 0 ''ok'')
                    else if c = ''false'' then Inr (ShellReturn 1 '''')
                    else Inl (Exc AdbError ''device offline'')) ''false''
     = Inr \<lparr>shell_output = '''', error = Some ''exit:1, output:''\<rparr>
   \<and> shell (\<lambda>c r t. if c = ''echo ok'' then Inr (ShellReturn 0 ''ok'')
                    else if c = ''false'' then Inr (ShellReturn 1 '''')
                    else Inl (Exc AdbError ''device offline'')) ''ls''
     = Inr \<lparr>shell_output = '''', error = Some ''adb error: device offline''\<rparr>"
proof -
  let ?sh = "\<lambda>c r t. if c = ''echo ok'' then Inr (ShellReturn 0 ''ok'')
                    else if c = ''false'' then Inr (ShellReturn 1 '''')
                    else Inl (Exc AdbError ''device offline'')"
  from C7_shell_folds_every_outcome [of ?sh "''echo ok''" "ShellReturn 0 ''ok''"]
  have a: "shell ?sh ''echo ok'' = Inr \<lparr>shell_output = ''ok'', error = None\<rparr>" by simp
  from C7_shell_folds_every_outcome [of ?sh "''false''" "ShellReturn 1 ''''"]
  have b: "shell ?sh ''false'' = Inr \<lparr>shell_output = '''', error = Some ''exit:1, output:''\<rparr>"
    by (simp add: py_str_def str_nat.simps digit_char_def)
  from C7_shell_folds_every_outcome [of ?sh "''ls''" _ "Exc AdbError ''device offline''"]
  have c: "shell ?sh ''ls'' = Inr \<lparr>shell_output = '''', error = Some ''adb error: device offline''\<rparr>"
    by simp
  from a b c show ?thesis by simp
qed

section \<open>Properties of the floating-point operations\<close>

lemma round_half_even_ge: "of_int n \<le> q \<Longrightarrow> n \<le> round_half_even q"
proof -
  assume "of_int n \<le> q"
  then have "n \<le> \<lfloor>q\<rfloor>" by (simp add: le_floor_iff)
  moreover have "\<lfloor>q\<rfloor> \<le> round_half_even q" by (simp add: round_half_even_def Let_def)
  ultimately show ?thesis by linarith
qed

lemma round_half_even_le: "q \<le> of_int n \<Longrightarrow> round_half_even q \<le> n"
proof (cases "q = of_int \<lfloor>q\<rfloor>")
  case True
  assume "q \<le> of_int n"
  then have "\<lfloor>q\<rfloor> \<le> \<lfloor>of_int n :: rat\<rfloor>" by (rule floor_mono)
  then have "\<lfloor>q\<rfloor> \<le> n" by simp
  moreover from True have "round_half_even q = \<lfloor>q\<rfloor>" by (simp add: round_half_even_def Let_def)
  ultimately show ?thesis by simp
next
  case False
  assume a: "q \<le> of_int n"
  have ne: "of_int \<lfloor>q\<rfloor> \<noteq> q" using False by (rule not_sym)
  have "of_int \<lfloor>q\<rfloor> < q"
    using ne of_int_floor_le by (rule order.not_eq_order_implies_strict)
  with a have "of_int \<lfloor>q\<rfloor> < (of_int n :: rat)" by simp
  then have "\<lfloor>q\<rfloor> < n" by simp
  moreover have "round_half_even q \<le> \<lfloor>q\<rfloor> + 1" by (simp add: round_half_even_def Let_def)
  ultimately show ?thesis by linarith
qed

lemma pow2_pos: "0 < pow2 e"
  by (simp add: pow2_def)

lemma bin_exponent_le_0: "0 < q \<Longrightarrow> q \<le> 1 \<Longrightarrow> bin_exponent q \<le> 0"
  by (cases "q = 1") (simp_all add: bin_exponent_def bit_length_numeral)

lemma binary64_pos_unfold:
  "0 < q \<Longrightarrow>
   binary64 q = of_int (round_half_even (q / pow2 (max (bin_exponent q - 52) (- 1074))))
                  * pow2 (max (bin_exponent q - 52) (- 1074))"
  by (simp add: binary64_def Let_def)

lemma binary64_nonneg: "0 \<le> q \<Longrightarrow> 0 \<le> binary64 q"
proof (cases "q = 0")
  case True
  then show ?thesis by (simp add: binary64_def)
next
  case False
  assume "0 \<le> q"
  with False have q: "0 < q" by simp
  define u where "u = max (bin_exponent q - 52) (- 1074)"
  have "0 \<le> q / pow2 u" using q pow2_pos [of u] by simp
  then have "(of_int 0 :: rat) \<le> q / pow2 u" by simp
  then have "0 \<le> round_half_even (q / pow2 u)" by (rule round_half_even_ge)
  then have "0 \<le> of_int (round_half_even (q / pow2 u)) * pow2 u"
    using pow2_pos [of u] by simp
  then show ?thesis by (simp only: binary64_pos_unfold [OF q] u_def)
qed

lemma binary64_le_1: "0 \<le> q \<Longrightarrow> q \<le> 1 \<Longrightarrow> binary64 q \<le> 1"
proof (cases "q = 0")
  case True
  then show ?thesis by (simp add: binary64_def)
next
  case False
  assume "0 \<le> q" and q1: "q \<le> 1"
  with False have q: "0 < q" by simp
  define u where "u = max (bin_exponent q - 52) (- 1074)"
  define k where "k = nat (- u)"
  from bin_exponent_le_0 [OF q q1] have "u < 0" by (simp add: u_def)
  then have p: "pow2 u = 1 / 2 ^ k" by (simp add: pow2_def k_def)
  have "q * 2 ^ k \<le> 1 * 2 ^ k" using q1 by (intro mult_right_mono) simp_all
  then have "q * 2 ^ k \<le> of_int (2 ^ k)" by simp
  then have "round_half_even (q * 2 ^ k) \<le> 2 ^ k" by (rule round_half_even_le)
  then have "(of_int (round_half_even (q * 2 ^ k)) :: rat) \<le> of_int (2 ^ k)"
    by (simp only: of_int_le_iff)
  then have "(of_int (round_half_even (q * 2 ^ k)) :: rat) / 2 ^ k \<le> 1"
    by (simp add: divide_le_eq)
  moreover have "binary64 q = of_int (round_half_even (q * 2 ^ k)) / 2 ^ k"
    unfolding binary64_pos_unfold [OF q] u_def [symmetric] p by simp
  ultimately show ?thesis by simp
qed

lemma float_round_unit:
  assumes "0 \<le> x" "x \<le> 1"
  shows "0 \<le> float_round x 4" and "float_round x 4 \<le> 1"
proof -
  define m where "m = round_half_even (x * 10 ^ 4)"
  have "(of_int 0 :: rat) \<le> x * 10 ^ 4" using assms by simp
  then have m0: "0 \<le> m" unfolding m_def by (rule round_half_even_ge)
  have "x * 10 ^ 4 \<le> of_int (10 ^ 4)" using assms by simp
  then have m1: "m \<le> 10 ^ 4" unfolding m_def by (rule round_half_even_le)
  have a: "(0::rat) \<le> of_int m / 10 ^ 4" using m0 by simp
  have "(of_int m :: rat) \<le> of_int (10 ^ 4)" using m1 by (simp only: of_int_le_iff)
  then have b: "(of_int m :: rat) / 10 ^ 4 \<le> 1" by simp
  show "0 \<le> float_round x 4" using binary64_nonneg [OF a] by (simp add: float_round_def m_def)
  show "float_round x 4 \<le> 1" using binary64_le_1 [OF a b] by (simp add: float_round_def m_def)
qed

lemma int_truediv_unit:
  assumes "0 \<le> a" "a \<le> b" "0 < b"
  shows "\<exists>r. int_truediv a b = Inr r \<and> 0 \<le> r \<and> r \<le> 1"
proof -
  have q0: "(0::rat) \<le> of_int a / of_int b" using assms by simp
  have q1: "(of_int a :: rat) / of_int b \<le> 1" using assms by simp
  have "binary64 (of_int a / of_int b) < pow2 1024"
    using binary64_le_1 [OF q0 q1] by (simp add: pow2_def)
  then show ?thesis
    using binary64_nonneg [OF q0] binary64_le_1 [OF q0 q1] assms
    by (simp add: int_truediv_def Let_def)
qed

lemma int_truediv_finite:
  "0 \<le> a \<Longrightarrow> 0 < b \<Longrightarrow> binary64 (of_int a / of_int b) < pow2 1024 \<Longrightarrow>
   int_truediv a b = Inr (binary64 (of_int a / of_int b))"
proof -
  assume a: "0 \<le> a" "0 < b" "binary64 (of_int a / of_int b) < pow2 1024"
  then have "(0::rat) \<le> of_int a / of_int b" by simp
  from binary64_nonneg [OF this] a show ?thesis by (simp add: int_truediv_def Let_def)
qed

lemma bit_length_bounds:
  "0 < n \<Longrightarrow> 2 ^ (bit_length n - 1) \<le> n \<and> n < 2 ^ bit_length n"
proof (induction n rule: bit_length.induct)
  case (1 n)
  show ?case
  proof (cases "n = 1")
    case True
    then show ?thesis by (simp add: bit_length_numeral)
  next
    case False
    with "1.prems" have h: "0 < n div 2" and n0: "n \<noteq> 0" by simp_all
    from "1.IH" [OF n0 h] have lo: "2 ^ (bit_length (n div 2) - 1) \<le> n div 2"
      and hi: "n div 2 < 2 ^ bit_length (n div 2)" by simp_all
    have b: "bit_length n = Suc (bit_length (n div 2))"
      using n0 by (subst bit_length.simps) simp
    have pos: "0 < bit_length (n div 2)"
      using h by (subst bit_length.simps) simp
    then have "(2::nat) ^ bit_length (n div 2) = 2 * 2 ^ (bit_length (n div 2) - 1)"
      by (cases "bit_length (n div 2)") simp_all
    with lo have "2 ^ bit_length (n div 2) \<le> 2 * (n div 2)" by simp
    then have l: "2 ^ (bit_length n - 1) \<le> n" using b by simp
    from hi have "n < 2 * 2 ^ bit_length (n div 2)" by linarith
    then have "n < 2 ^ bit_length n" using b by simp
    with l show ?thesis by simp
  qed
qed

lemma binary64_overflow: 
  assumes "pow2 1024 \<le> q"
  shows "pow2 1024 \<le> binary64 q"
proof -
  from assms have q1024: "(2::rat) ^ 1024 \<le> q" by (simp add: pow2_def)
  then have q1: "1 \<le> q" and q0: "0 < q" by simp_all
  define n where "n = nat \<lfloor>q\<rfloor>"
  have "of_int (2 ^ 1024) \<le> q" using q1024 by simp
  then have "(2::int) ^ 1024 \<le> \<lfloor>q\<rfloor>" by (simp only: le_floor_iff)
  then have n1024: "2 ^ 1024 \<le> n" unfolding n_def by (simp add: le_nat_iff)
  then have npos: "0 < n" by (simp add: order_less_le_trans [of 0 "2 ^ 1024" n])
  from bit_length_bounds [OF npos] have lo: "2 ^ (bit_length n - 1) \<le> n"
    and hi: "n < 2 ^ bit_length n" by simp_all
  from n1024 hi have "(2::nat) ^ 1024 < 2 ^ bit_length n" by linarith
  have bl: "1024 < bit_length n"
  proof (rule power_less_imp_less_exp)
    show "(1::nat) < 2" by simp
    show "(2::nat) ^ 1024 < 2 ^ bit_length n" by fact
  qed
  define e where "e = bit_length n - 1"
  have e1024: "1024 \<le> e" using bl by (simp add: e_def)
  have be: "bin_exponent q = int e" using q1 bl by (simp add: bin_exponent_def n_def e_def)
  define k where "k = e - 52"
  have u: "max (bin_exponent q - 52) (- 1074) = int k" using e1024 by (simp add: be k_def)
  have pk: "pow2 (int k) = 2 ^ k" by (simp add: pow2_def)
  have ek: "e = 52 + k" using e1024 by (simp add: k_def)
  have pe: "(2::rat) ^ e = of_nat (2 ^ e)" by simp
  have "of_nat (2 ^ e) \<le> (of_nat n :: rat)" using lo unfolding e_def by (simp only: of_nat_le_iff)
  then have "(2::rat) ^ e \<le> of_nat n" by (simp only: pe)
  moreover have "(of_nat n :: rat) \<le> q" using q0 unfolding n_def by simp
  ultimately have "(2::rat) ^ e \<le> q" by (rule order_trans)
  then have "(2::rat) ^ 52 * 2 ^ k \<le> q" by (simp add: ek power_add)
  then have "(2::rat) ^ 52 \<le> q / 2 ^ k" by (simp add: le_divide_eq)
  then have "of_int (2 ^ 52) \<le> q / 2 ^ k" by simp
  then have "2 ^ 52 \<le> round_half_even (q / 2 ^ k)" by (rule round_half_even_ge)
  then have "(of_int (2 ^ 52) :: rat) \<le> of_int (round_half_even (q / 2 ^ k))"
    by (simp only: of_int_le_iff)
  then have "(2::rat) ^ 52 * 2 ^ k \<le> of_int (round_half_even (q / 2 ^ k)) * 2 ^ k"
    by (intro mult_right_mono) simp_all
  then have "(2::rat) ^ e \<le> binary64 q"
    by (simp add: binary64_pos_unfold [OF q0] u pk ek power_add)
  moreover have "(2::rat) ^ 1024 \<le> 2 ^ e" using e1024 by (intro power_increasing) simp_all
  ultimately show ?thesis by (simp add: pow2_def)
qed

text \<open>\<open>bin_exponent\<close> is the binary exponent of a positive rational.\<close>

lemma pow2_le_of_nat: "2 ^ a \<le> (n::nat) \<Longrightarrow> (2::rat) ^ a \<le> of_nat n"
proof -
  assume "2 ^ a \<le> n"
  then have "(of_nat (2 ^ a) :: rat) \<le> of_nat n" by (simp only: of_nat_le_iff)
  then show ?thesis by simp
qed

lemma of_nat_Suc_le_pow2: "(n::nat) < 2 ^ a \<Longrightarrow> (of_nat n :: rat) + 1 \<le> 2 ^ a"
proof -
  assume "n < 2 ^ a"
  then have "Suc n \<le> 2 ^ a" by simp
  then have "(of_nat (Suc n) :: rat) \<le> of_nat (2 ^ a)" by (simp only: of_nat_le_iff)
  then show ?thesis by simp
qed

lemma pow2_neg: "pow2 (- int j) = 1 / 2 ^ j"
  by (cases "j = 0") (simp_all add: pow2_def)

lemma bin_exponent_bounds:
  assumes "0 < q"
  shows "pow2 (bin_exponent q) \<le> q" and "q < pow2 (bin_exponent q + 1)"
proof -
  have "pow2 (bin_exponent q) \<le> q \<and> q < pow2 (bin_exponent q + 1)"
  proof (cases "1 \<le> q")
    case True
    define n where "n = nat \<lfloor>q\<rfloor>"
    from True have "1 \<le> \<lfloor>q\<rfloor>" by (simp add: le_floor_iff)
    then have npos: "0 < n" and fl: "\<lfloor>q\<rfloor> = int n" by (simp_all add: n_def)
    from bit_length_bounds [OF npos] have lo: "2 ^ (bit_length n - 1) \<le> n"
      and hi: "n < 2 ^ bit_length n" by simp_all
    have blpos: "0 < bit_length n" using npos by (subst bit_length.simps) simp
    have e: "bin_exponent q = int (bit_length n - 1)"
      using True blpos by (simp add: bin_exponent_def n_def)
    have "(2::rat) ^ (bit_length n - 1) \<le> of_nat n" using lo by (rule pow2_le_of_nat)
    moreover have "(of_nat n :: rat) \<le> q" using fl of_int_floor_le [of q] by simp
    ultimately have l: "(2::rat) ^ (bit_length n - 1) \<le> q" by (rule order_trans)
    have "q < of_int \<lfloor>q\<rfloor> + 1" by linarith
    then have "q < of_nat n + 1" using fl by simp
    moreover have "(of_nat n :: rat) + 1 \<le> 2 ^ bit_length n"
      using hi by (rule of_nat_Suc_le_pow2)
    ultimately have h: "q < 2 ^ bit_length n" by (rule less_le_trans)
    have "int (bit_length n - 1) + 1 = int (bit_length n)" using blpos by simp
    then have "pow2 (bin_exponent q + 1) = 2 ^ bit_length n"
      by (simp add: e pow2_def)
    moreover have "pow2 (bin_exponent q) = 2 ^ (bit_length n - 1)"
      by (simp add: e pow2_def)
    ultimately show ?thesis using l h by simp
  next
    case False
    with assms have q: "0 < q" "q < 1" by simp_all
    define m where "m = nat (\<lceil>1 / q\<rceil> - 1)"
    define k where "k = bit_length m"
    have inv: "1 < 1 / q" using q by simp
    then have "of_int 1 < 1 / q" by simp
    then have c1: "1 < \<lceil>1 / q\<rceil>" by (simp only: less_ceiling_iff)
    have mc: "0 < nat (c - 1) \<and> c = int (nat (c - 1)) + 1" if "1 < c" for c :: int
      using that by simp
    from mc [OF c1] have mpos: "0 < m" and cm: "\<lceil>1 / q\<rceil> = int m + 1"
      unfolding m_def by blast+
    from bit_length_bounds [OF mpos] have lo: "2 ^ (k - 1) \<le> m" and hi: "m < 2 ^ k"
      by (simp_all add: k_def)
    have kpos: "0 < k" unfolding k_def using mpos by (subst bit_length.simps) simp
    have e: "bin_exponent q = - int k" using False by (simp add: bin_exponent_def m_def k_def)
    have "1 / q \<le> of_int \<lceil>1 / q\<rceil>" by (rule le_of_int_ceiling)
    also have "\<dots> = of_nat m + 1" using cm by simp
    also have "\<dots> \<le> 2 ^ k" using hi by (rule of_nat_Suc_le_pow2)
    finally have up: "1 / q \<le> 2 ^ k" .
    have "(2::rat) ^ (k - 1) \<le> of_nat m" using lo by (rule pow2_le_of_nat)
    also have "\<dots> = of_int \<lceil>1 / q\<rceil> - 1" using cm by simp
    also have "\<dots> < 1 / q" by linarith
    finally have dn: "(2::rat) ^ (k - 1) < 1 / q" .
    from up q have l: "1 / 2 ^ k \<le> q" by (simp add: field_simps)
    from dn q have h: "q < 1 / 2 ^ (k - 1)" by (simp add: field_simps)
    have p0: "pow2 (bin_exponent q) = 1 / 2 ^ k" by (simp only: e pow2_neg)
    have k1: "- int k + 1 = - int (k - 1)" using kpos by simp
    have "pow2 (bin_exponent q + 1) = pow2 (- int (k - 1))" by (simp only: e k1)
    also have "\<dots> = 1 / 2 ^ (k - 1)" by (rule pow2_neg)
    finally have p1: "pow2 (bin_exponent q + 1) = 1 / 2 ^ (k - 1)" .
    show ?thesis using l h by (simp only: p0 p1)
  qed
  then show "pow2 (bin_exponent q) \<le> q" and "q < pow2 (bin_exponent q + 1)" by simp_all
qed


lemma int_truediv_overflow:
  "0 \<le> a \<Longrightarrow> 0 < b \<Longrightarrow> pow2 1024 \<le> binary64 (of_int a / of_int b) \<Longrightarrow>
   int_truediv a b = Inl (Exc OverflowError ''integer division result too large for a float'')"
proof -
  assume a: "0 \<le> a" "0 < b" "pow2 1024 \<le> binary64 (of_int a / of_int b)"
  then have "(0::rat) \<le> of_int a / of_int b" by simp
  from binary64_nonneg [OF this] a show ?thesis by (simp add: int_truediv_def Let_def)
qed

lemma int_truediv_Inl_class:
  "int_truediv a b = Inl e \<Longrightarrow>
   exc_class e = ZeroDivisionError \<or> exc_class e = OverflowError"
  by (auto simp: int_truediv_def Let_def split: if_splits)

section \<open>Properties of the conversion of digit runs\<close>

lemma map_int_ok:
  "\<forall>r \<in> set rs. length r \<le> int_max_str_digits \<Longrightarrow>
   map_int rs = Inr (map (\<lambda>r. int (digits_value r)) rs)"
  by (induction rs) (auto simp: py_int_def)

lemma py_int_Inl: "py_int r = Inl e \<Longrightarrow> exc_class e = ValueError \<and> int_max_str_digits < length r"
  by (auto simp: py_int_def split: if_splits)

lemma map_int_Inl:
  "map_int rs = Inl e \<Longrightarrow>
   exc_class e = ValueError \<and> (\<exists>r \<in> set rs. int_max_str_digits < length r)"
  by (induction rs) (auto split: sum.splits dest: py_int_Inl)

lemma map_int_Inr:
  "map_int rs = Inr vs \<Longrightarrow>
   length vs = length rs \<and> (\<forall>v \<in> set vs. 0 \<le> v)
   \<and> (\<forall>r \<in> set rs. length r \<le> int_max_str_digits)"
proof (induction rs arbitrary: vs)
  case Nil
  then show ?case by simp
next
  case (Cons r rs)
  from Cons.prems obtain v vs' where v: "py_int r = Inr v" and vs': "map_int rs = Inr vs'"
    and vs: "vs = v # vs'"
    by (auto split: sum.splits)
  from v have "0 \<le> v" "length r \<le> int_max_str_digits"
    by (auto simp: py_int_def split: if_splits)
  with Cons.IH [OF vs'] vs show ?case by simp
qed

lemma map_int_too_long:
  "\<exists>r \<in> set rs. int_max_str_digits < length r \<Longrightarrow>
   \<exists>e. map_int rs = Inl e \<and> exc_class e = ValueError"
proof (cases "map_int rs")
  case (Inl e)
  then show ?thesis using map_int_Inl by blast
next
  case (Inr vs)
  assume "\<exists>r \<in> set rs. int_max_str_digits < length r"
  with map_int_Inr [OF Inr] show ?thesis by (auto simp: not_le [symmetric])
qed

lemma str_nat_length_le: "n < 10 ^ k \<Longrightarrow> 0 < k \<Longrightarrow> length (str_nat n) \<le> k"
proof (induction n arbitrary: k rule: str_nat.induct)
  case (1 n)
  show ?case
  proof (cases "n < 10")
    case True
    then show ?thesis using "1.prems" by (subst str_nat.simps) simp
  next
    case False
    obtain j where k: "k = Suc j" using "1.prems"(2) by (cases k) auto
    have j: "0 < j"
    proof (rule ccontr)
      assume "\<not> 0 < j"
      with k "1.prems"(1) False show False by simp
    qed
    from "1.prems"(1) k have "n div 10 < 10 ^ j" by (simp add: less_mult_imp_div_less)
    from "1.IH" [OF False this j] have "length (str_nat (n div 10)) \<le> j" .
    then show ?thesis using False k by (subst str_nat.simps) simp
  qed
qed

lemma str_nat_length_gt: "10 ^ k \<le> n \<Longrightarrow> k < length (str_nat n)"
proof (induction n arbitrary: k rule: str_nat.induct)
  case (1 n)
  show ?case
  proof (cases k)
    case 0
    then show ?thesis using str_nat_nonempty [of n] by (cases "str_nat n") auto
  next
    case (Suc j)
    have p: "(1::nat) \<le> 10 ^ j" by simp
    from "1.prems" Suc have le: "10 * 10 ^ j \<le> n" by simp
    from p le have n10: "\<not> n < 10" by linarith
    from "1.prems" Suc have "10 ^ j * 10 \<le> n" by (simp add: mult.commute)
    then have "10 ^ j \<le> n div 10" by (simp add: less_eq_div_iff_mult_less_eq)
    from "1.IH" [OF n10 this] have "j < length (str_nat (n div 10))" .
    then show ?thesis using n10 Suc by (subst str_nat.simps) simp
  qed
qed

lemma scan_digits_run:
  "\<forall>c \<in> set ds. is_digit c \<Longrightarrow> scan_digits cur (ds @ rest) = scan_digits (cur @ ds) rest"
  by (induction ds arbitrary: cur) auto

lemma scan_digits_number:
  "\<not> is_digit c \<Longrightarrow> scan_digits [] (str_nat n @ c # rest) = str_nat n # scan_digits [] rest"
  using scan_digits_run [OF str_nat_digits, of "[]" n "c # rest"] str_nat_nonempty [of n]
  by simp

lemma findall_digits_bounds_string:
  "findall_digits (bounds_string x1 y1 x2 y2) = [str_nat x1, str_nat y1, str_nat x2, str_nat y2]"
proof -
  have n: "\<not> is_digit CHR ''[''" "\<not> is_digit CHR '']''" "\<not> is_digit CHR '',''"
    by (simp_all add: is_digit_def)
  have "findall_digits (bounds_string x1 y1 x2 y2)
      = scan_digits [] (str_nat x1 @ CHR '','' # (str_nat y1 @ CHR '']'' # CHR ''['' #
          (str_nat x2 @ CHR '','' # (str_nat y2 @ CHR '']'' # []))))"
    by (simp add: findall_digits_def bounds_string_def n)
  also have "\<dots> = [str_nat x1, str_nat y1, str_nat x2, str_nat y2]"
    by (simp add: scan_digits_number n)
  finally show ?thesis .
qed


lemma findall_digits_replicate:
  "is_digit c \<Longrightarrow> 0 < n \<Longrightarrow> findall_digits (replicate n c) = [replicate n c]"
  using scan_digits_run [of "replicate n c" "[]" "[]"]
  by (simp add: findall_digits_def)

lemma ints_of_bounds_string:
  assumes "length (str_nat x1) \<le> int_max_str_digits"
    and "length (str_nat y1) \<le> int_max_str_digits"
    and "length (str_nat x2) \<le> int_max_str_digits"
    and "length (str_nat y2) \<le> int_max_str_digits"
  shows "map_int (findall_digits (bounds_string x1 y1 x2 y2))
     = Inr [int x1, int y1, int x2, int y2]"
proof -
  have "map_int [str_nat x1, str_nat y1, str_nat x2, str_nat y2]
      = Inr (map (\<lambda>r. int (digits_value r)) [str_nat x1, str_nat y1, str_nat x2, str_nat y2])"
    by (rule map_int_ok) (simp add: assms)
  then show ?thesis
    by (simp only: findall_digits_bounds_string digits_value_str_nat list.map)
qed

lemma parse_bounds_four:
  "map_int (findall_digits s) = Inr [x1, y1, x2, y2] \<Longrightarrow>
   parse_bounds s wsize =
     (case int_truediv x1 (width wsize) of Inl e \<Rightarrow> Inl e | Inr b0 \<Rightarrow>
      case int_truediv y1 (height wsize) of Inl e \<Rightarrow> Inl e | Inr b1 \<Rightarrow>
      case int_truediv x2 (width wsize) of Inl e \<Rightarrow> Inl e | Inr b2 \<Rightarrow>
      case int_truediv y2 (height wsize) of Inl e \<Rightarrow> Inl e | Inr b3 \<Rightarrow>
        Inr (float_round b0 4, float_round b1 4, float_round b2 4, float_round b3 4))"
  by (auto simp: parse_bounds_def split: sum.splits)

lemma parse_bounds_too_long:
  "\<exists>r \<in> set (findall_digits s). int_max_str_digits < length r \<Longrightarrow>
   \<exists>e. parse_bounds s wsize = Inl e \<and> exc_class e = ValueError"
proof -
  assume "\<exists>r \<in> set (findall_digits s). int_max_str_digits < length r"
  from map_int_too_long [OF this] obtain e where
    "map_int (findall_digits s) = Inl e" "exc_class e = ValueError" by blast
  then show ?thesis by (simp add: parse_bounds_def)
qed

lemma parse_bounds_Inl_class:
  "parse_bounds s wsize = Inl e \<Longrightarrow>
   exc_class e = ValueError \<or> exc_class e = AssertionError
   \<or> exc_class e = ZeroDivisionError \<or> exc_class e = OverflowError"
  by (auto simp: parse_bounds_def split: sum.splits if_splits
      dest: map_int_Inl int_truediv_Inl_class)

section \<open>Properties of the bounds normalisation\<close>

text \<open>
  C4 as stated fails: nothing clamps the quotients, so a rectangle that reaches beyond the
  window can have a coordinate above 1. With a window of 1080 by 2340 the geometry
  \<open>[0,0][2160,2340]\<close> is normalised to \<open>(0, 0, 2, 1)\<close>.
\<close>

theorem C4_coordinate_beyond_window:
  "parse_bounds ''[0,0][2160,2340]'' \<lparr>width = 1080, height = 2340\<rparr> = Inr (0, 0, 2, 1)"
  by (simp add: bounds_eval float_eval)

text \<open>
  C4 (as amended). For every geometry string whose digit runs \<open>int\<close> converts to exactly
  four integers (each run has at most 4300 digits), and every window of positive width
  and height, when the two x coordinates are at most the width and the two y coordinates
  are at most the height, the normalisation returns four coordinates and each lies in
  the closed interval from 0 to 1.
\<close>

theorem C4_coordinates_in_unit_interval:
  assumes "map_int (findall_digits s) = Inr [x1, y1, x2, y2]"
    and "0 < width wsize" and "0 < height wsize"
    and "x1 \<le> width wsize" and "x2 \<le> width wsize"
    and "y1 \<le> height wsize" and "y2 \<le> height wsize"
  shows "\<exists>a b c d. parse_bounds s wsize = Inr (a, b, c, d)
           \<and> 0 \<le> a \<and> a \<le> 1 \<and> 0 \<le> b \<and> b \<le> 1
           \<and> 0 \<le> c \<and> c \<le> 1 \<and> 0 \<le> d \<and> d \<le> 1"
proof -
  from map_int_Inr [OF assms(1)] have nn: "0 \<le> x1" "0 \<le> y1" "0 \<le> x2" "0 \<le> y2"
    by simp_all
  from int_truediv_unit [OF nn(1) assms(4) assms(2)] obtain b0 where
    b0: "int_truediv x1 (width wsize) = Inr b0" "0 \<le> b0" "b0 \<le> 1" by blast
  from int_truediv_unit [OF nn(2) assms(6) assms(3)] obtain b1 where
    b1: "int_truediv y1 (height wsize) = Inr b1" "0 \<le> b1" "b1 \<le> 1" by blast
  from int_truediv_unit [OF nn(3) assms(5) assms(2)] obtain b2 where
    b2: "int_truediv x2 (width wsize) = Inr b2" "0 \<le> b2" "b2 \<le> 1" by blast
  from int_truediv_unit [OF nn(4) assms(7) assms(3)] obtain b3 where
    b3: "int_truediv y2 (height wsize) = Inr b3" "0 \<le> b3" "b3 \<le> 1" by blast
  have "parse_bounds s wsize
      = Inr (float_round b0 4, float_round b1 4, float_round b2 4, float_round b3 4)"
    by (simp add: parse_bounds_four [OF assms(1)] b0 b1 b2 b3)
  then show ?thesis
    using float_round_unit [OF b0(2,3)] float_round_unit [OF b1(2,3)]
      float_round_unit [OF b2(2,3)] float_round_unit [OF b3(2,3)]
    by blast
qed

theorem C4_coordinates_in_unit_interval_witness:
  "map_int (findall_digits ''[883,2222][1008,2265]'') = Inr [883, 2222, 1008, 2265]
   \<and> (\<exists>a b c d. parse_bounds ''[883,2222][1008,2265]'' \<lparr>width = 1080, height = 2340\<rparr>
                    = Inr (a, b, c, d)
           \<and> 0 \<le> a \<and> a \<le> 1 \<and> 0 \<le> b \<and> b \<le> 1
           \<and> 0 \<le> c \<and> c \<le> 1 \<and> 0 \<le> d \<and> d \<le> 1)"
proof -
  have h: "map_int (findall_digits ''[883,2222][1008,2265]'') = Inr [883, 2222, 1008, 2265]"
    by (simp add: bounds_eval)
  from C4_coordinates_in_unit_interval [OF h, of "\<lparr>width = 1080, height = 2340\<rparr>"] h
  show ?thesis by simp
qed

text \<open>
  C8 as stated fails: when a quotient is beyond the largest float the division raises
  \<open>OverflowError\<close> and no tuple is returned. With a window of 1 by 1 the geometry whose
  first integer is \<open>10 ^ 309\<close> is such a case.
\<close>

theorem C8_huge_coordinate_overflows:
  "parse_bounds (bounds_string (10 ^ 309) 0 1 1) \<lparr>width = 1, height = 1\<rparr>
     = Inl (Exc OverflowError ''integer division result too large for a float'')"
proof -
  have "pow2 1024 \<le> 10 ^ 309" by (simp add: pow2_def)
  from binary64_overflow [OF this] have "pow2 1024 \<le> binary64 (10 ^ 309)" .
  moreover have "0 \<le> binary64 (10 ^ 309)" by (rule binary64_nonneg) simp
  ultimately have o: "int_truediv (10 ^ 309) 1
      = Inl (Exc OverflowError ''integer division result too large for a float'')"
    by (simp add: int_truediv_def Let_def)
  have "(10::nat) ^ 309 < 10 ^ 310" by (rule power_strict_increasing) simp_all
  then have "length (str_nat (10 ^ 309)) \<le> 310" by (rule str_nat_length_le) simp
  then have l: "length (str_nat (10 ^ 309)) \<le> int_max_str_digits"
    by (simp add: int_max_str_digits_def)
  have s: "length (str_nat 0) \<le> int_max_str_digits" "length (str_nat 1) \<le> int_max_str_digits"
    by (simp_all add: str_nat.simps int_max_str_digits_def)
  from ints_of_bounds_string [OF l s(1) s(2) s(2)]
  have "map_int (findall_digits (bounds_string (10 ^ 309) 0 1 1))
      = Inr [int (10 ^ 309), 0, 1, 1]" by simp
  from parse_bounds_four [OF this] o show ?thesis by simp
qed

text \<open>
  C8 (as amended). For every geometry string \<open>[x1,y1][x2,y2]\<close> of four non-negative
  integers and every window of positive width and height:
  when each integer is written with at most 4300 digits and each of the four quotients
  rounds to a finite float (a float below \<open>2 ^ 1024\<close>), the normalisation returns the
  floats \<open>x1/width\<close>, \<open>y1/height\<close>, \<open>x2/width\<close>, \<open>y2/height\<close>, each rounded to 4
  decimal digits by \<open>round\<close>;
  when each integer is written with at most 4300 digits and one of the quotients does
  not round to a finite float, it raises \<open>OverflowError\<close>;
  when one of the integers is written with more than 4300 digits, it raises
  \<open>ValueError\<close>.
\<close>

theorem C8_quotients_rounded_to_4_digits:
  assumes "0 < width wsize" and "0 < height wsize"
  shows
   "(length (str_nat x1) \<le> int_max_str_digits \<and> length (str_nat y1) \<le> int_max_str_digits
     \<and> length (str_nat x2) \<le> int_max_str_digits \<and> length (str_nat y2) \<le> int_max_str_digits
     \<and> binary64 (of_nat x1 / of_int (width wsize)) < pow2 1024
     \<and> binary64 (of_nat y1 / of_int (height wsize)) < pow2 1024
     \<and> binary64 (of_nat x2 / of_int (width wsize)) < pow2 1024
     \<and> binary64 (of_nat y2 / of_int (height wsize)) < pow2 1024
     \<longrightarrow> parse_bounds (bounds_string x1 y1 x2 y2) wsize
           = Inr (float_round (binary64 (of_nat x1 / of_int (width wsize))) 4,
                  float_round (binary64 (of_nat y1 / of_int (height wsize))) 4,
                  float_round (binary64 (of_nat x2 / of_int (width wsize))) 4,
                  float_round (binary64 (of_nat y2 / of_int (height wsize))) 4))
    \<and> (length (str_nat x1) \<le> int_max_str_digits \<and> length (str_nat y1) \<le> int_max_str_digits
     \<and> length (str_nat x2) \<le> int_max_str_digits \<and> length (str_nat y2) \<le> int_max_str_digits
     \<and> (pow2 1024 \<le> binary64 (of_nat x1 / of_int (width wsize))
        \<or> pow2 1024 \<le> binary64 (of_nat y1 / of_int (height wsize))
        \<or> pow2 1024 \<le> binary64 (of_nat x2 / of_int (width wsize))
        \<or> pow2 1024 \<le> binary64 (of_nat y2 / of_int (height wsize)))
     \<longrightarrow> parse_bounds (bounds_string x1 y1 x2 y2) wsize
           = Inl (Exc OverflowError ''integer division result too large for a float''))
    \<and> (int_max_str_digits < length (str_nat x1) \<or> int_max_str_digits < length (str_nat y1)
     \<or> int_max_str_digits < length (str_nat x2) \<or> int_max_str_digits < length (str_nat y2)
     \<longrightarrow> (\<exists>e. parse_bounds (bounds_string x1 y1 x2 y2) wsize = Inl e
               \<and> exc_class e = ValueError))"
proof -
  have d: "int_truediv (int n) b =
      (if binary64 (of_nat n / of_int b) < pow2 1024
       then Inr (binary64 (of_nat n / of_int b))
       else Inl (Exc OverflowError ''integer division result too large for a float''))"
    if "0 < b" for n b
    using int_truediv_finite [of "int n" b] int_truediv_overflow [of "int n" b] that
    by (auto simp: not_less)
  have four: "parse_bounds (bounds_string x1 y1 x2 y2) wsize =
     (case int_truediv (int x1) (width wsize) of Inl e \<Rightarrow> Inl e | Inr b0 \<Rightarrow>
      case int_truediv (int y1) (height wsize) of Inl e \<Rightarrow> Inl e | Inr b1 \<Rightarrow>
      case int_truediv (int x2) (width wsize) of Inl e \<Rightarrow> Inl e | Inr b2 \<Rightarrow>
      case int_truediv (int y2) (height wsize) of Inl e \<Rightarrow> Inl e | Inr b3 \<Rightarrow>
        Inr (float_round b0 4, float_round b1 4, float_round b2 4, float_round b3 4))"
    if "length (str_nat x1) \<le> int_max_str_digits" "length (str_nat y1) \<le> int_max_str_digits"
      "length (str_nat x2) \<le> int_max_str_digits" "length (str_nat y2) \<le> int_max_str_digits"
    using parse_bounds_four [OF ints_of_bounds_string [OF that]] .
  show ?thesis
  proof (intro conjI impI)
    assume a: "length (str_nat x1) \<le> int_max_str_digits \<and> length (str_nat y1) \<le> int_max_str_digits
     \<and> length (str_nat x2) \<le> int_max_str_digits \<and> length (str_nat y2) \<le> int_max_str_digits
     \<and> binary64 (of_nat x1 / of_int (width wsize)) < pow2 1024
     \<and> binary64 (of_nat y1 / of_int (height wsize)) < pow2 1024
     \<and> binary64 (of_nat x2 / of_int (width wsize)) < pow2 1024
     \<and> binary64 (of_nat y2 / of_int (height wsize)) < pow2 1024"
    then have "parse_bounds (bounds_string x1 y1 x2 y2) wsize =
     (case int_truediv (int x1) (width wsize) of Inl e \<Rightarrow> Inl e | Inr b0 \<Rightarrow>
      case int_truediv (int y1) (height wsize) of Inl e \<Rightarrow> Inl e | Inr b1 \<Rightarrow>
      case int_truediv (int x2) (width wsize) of Inl e \<Rightarrow> Inl e | Inr b2 \<Rightarrow>
      case int_truediv (int y2) (height wsize) of Inl e \<Rightarrow> Inl e | Inr b3 \<Rightarrow>
        Inr (float_round b0 4, float_round b1 4, float_round b2 4, float_round b3 4))"
      by (intro four) simp_all
    with a show "parse_bounds (bounds_string x1 y1 x2 y2) wsize
           = Inr (float_round (binary64 (of_nat x1 / of_int (width wsize))) 4,
                  float_round (binary64 (of_nat y1 / of_int (height wsize))) 4,
                  float_round (binary64 (of_nat x2 / of_int (width wsize))) 4,
                  float_round (binary64 (of_nat y2 / of_int (height wsize))) 4)"
      by (simp add: d [OF assms(1)] d [OF assms(2)])
  next
    assume a: "length (str_nat x1) \<le> int_max_str_digits \<and> length (str_nat y1) \<le> int_max_str_digits
     \<and> length (str_nat x2) \<le> int_max_str_digits \<and> length (str_nat y2) \<le> int_max_str_digits
     \<and> (pow2 1024 \<le> binary64 (of_nat x1 / of_int (width wsize))
        \<or> pow2 1024 \<le> binary64 (of_nat y1 / of_int (height wsize))
        \<or> pow2 1024 \<le> binary64 (of_nat x2 / of_int (width wsize))
        \<or> pow2 1024 \<le> binary64 (of_nat y2 / of_int (height wsize)))"
    then have "parse_bounds (bounds_string x1 y1 x2 y2) wsize =
     (case int_truediv (int x1) (width wsize) of Inl e \<Rightarrow> Inl e | Inr b0 \<Rightarrow>
      case int_truediv (int y1) (height wsize) of Inl e \<Rightarrow> Inl e | Inr b1 \<Rightarrow>
      case int_truediv (int x2) (width wsize) of Inl e \<Rightarrow> Inl e | Inr b2 \<Rightarrow>
      case int_truediv (int y2) (height wsize) of Inl e \<Rightarrow> Inl e | Inr b3 \<Rightarrow>
        Inr (float_round b0 4, float_round b1 4, float_round b2 4, float_round b3 4))"
      by (intro four) simp_all
    with a show "parse_bounds (bounds_string x1 y1 x2 y2) wsize
           = Inl (Exc OverflowError ''integer division result too large for a float'')"
      by (auto simp: d [OF assms(1)] d [OF assms(2)] not_less [symmetric])
  next
    assume a: "int_max_str_digits < length (str_nat x1) \<or> int_max_str_digits < length (str_nat y1)
     \<or> int_max_str_digits < length (str_nat x2) \<or> int_max_str_digits < length (str_nat y2)"
    have "\<exists>r \<in> set (findall_digits (bounds_string x1 y1 x2 y2)). int_max_str_digits < length r"
      using a by (auto simp: findall_digits_bounds_string)
    then show "\<exists>e. parse_bounds (bounds_string x1 y1 x2 y2) wsize = Inl e
               \<and> exc_class e = ValueError"
      by (rule parse_bounds_too_long)
  qed
qed

theorem C8_quotients_rounded_to_4_digits_witness:
  "parse_bounds (bounds_string 883 2222 1008 2265) \<lparr>width = 1080, height = 2340\<rparr>
     = Inr (7364286110676235 / 9007199254740992, 4276618206151023 / 4503599627370496,
            1050802383056221 / 1125899906842624, 4359034079331903 / 4503599627370496)
   \<and> bounds_string 883 2222 1008 2265 = ''[883,2222][1008,2265]''
   \<and> parse_bounds (bounds_string 0 0 (10 ^ 310) 1) \<lparr>width = 1, height = 1\<rparr>
     = Inl (Exc OverflowError ''integer division result too large for a float'')
   \<and> (\<exists>e. parse_bounds (bounds_string (10 ^ 4300) 0 1 1) \<lparr>width = 1, height = 1\<rparr> = Inl e
          \<and> exc_class e = ValueError)"
proof -
  let ?w = "\<lparr>width = 1080, height = 2340\<rparr>"
  let ?u = "\<lparr>width = 1, height = 1\<rparr>"
  have w: "0 < width ?w" "0 < height ?w" by simp_all
  have u: "0 < width ?u" "0 < height ?u" by simp_all
  have small: "length (str_nat 883) \<le> int_max_str_digits"
    "length (str_nat 2222) \<le> int_max_str_digits"
    "length (str_nat 1008) \<le> int_max_str_digits"
    "length (str_nat 2265) \<le> int_max_str_digits"
    "length (str_nat 0) \<le> int_max_str_digits"
    "length (str_nat 1) \<le> int_max_str_digits"
    by (simp_all add: str_nat.simps int_max_str_digits_def)
  have q: "binary64 (of_nat 883 / of_int (width ?w)) = 7364219390681755 / 9007199254740992"
    "binary64 (of_nat 2222 / of_int (height ?w)) = 4276495030776599 / 4503599627370496"
    "binary64 (of_nat 1008 / of_int (width ?w)) = 4203359652212463 / 4503599627370496"
    "binary64 (of_nat 2265 / of_int (height ?w)) = 8718506970935191 / 9007199254740992"
    by (simp_all add: float_eval)
  have f: "binary64 (of_nat 883 / of_int (width ?w)) < pow2 1024"
    "binary64 (of_nat 2222 / of_int (height ?w)) < pow2 1024"
    "binary64 (of_nat 1008 / of_int (width ?w)) < pow2 1024"
    "binary64 (of_nat 2265 / of_int (height ?w)) < pow2 1024"
    unfolding q by (simp_all add: pow2_def)
  have r: "float_round (7364219390681755 / 9007199254740992) 4 = 7364286110676235 / 9007199254740992"
    "float_round (4276495030776599 / 4503599627370496) 4 = 4276618206151023 / 4503599627370496"
    "float_round (4203359652212463 / 4503599627370496) 4 = 1050802383056221 / 1125899906842624"
    "float_round (8718506970935191 / 9007199254740992) 4 = 4359034079331903 / 4503599627370496"
    by (simp_all add: float_eval)
  have s: "bounds_string 883 2222 1008 2265 = ''[883,2222][1008,2265]''"
    by (simp add: bounds_string_def str_nat.simps digit_char_def)
  have "parse_bounds (bounds_string 883 2222 1008 2265) ?w
      = Inr (float_round (binary64 (of_nat 883 / of_int (width ?w))) 4,
             float_round (binary64 (of_nat 2222 / of_int (height ?w))) 4,
             float_round (binary64 (of_nat 1008 / of_int (width ?w))) 4,
             float_round (binary64 (of_nat 2265 / of_int (height ?w))) 4)"
    by (rule C8_quotients_rounded_to_4_digits [OF w, THEN conjunct1, THEN mp])
      (intro conjI small f)
  then have r1: "parse_bounds (bounds_string 883 2222 1008 2265) ?w
     = Inr (7364286110676235 / 9007199254740992, 4276618206151023 / 4503599627370496,
            1050802383056221 / 1125899906842624, 4359034079331903 / 4503599627370496)"
    by (simp only: q r)
  have "(10::nat) ^ 310 < 10 ^ 311" by (rule power_strict_increasing) simp_all
  then have "length (str_nat (10 ^ 310)) \<le> 311" by (rule str_nat_length_le) simp
  then have big: "length (str_nat (10 ^ 310)) \<le> int_max_str_digits"
    by (simp add: int_max_str_digits_def)
  have "pow2 1024 \<le> 10 ^ 310" by (simp add: pow2_def)
  from binary64_overflow [OF this]
  have o: "pow2 1024 \<le> binary64 (of_nat (10 ^ 310) / of_int (width ?u))" by simp
  have r2: "parse_bounds (bounds_string 0 0 (10 ^ 310) 1) ?u
     = Inl (Exc OverflowError ''integer division result too large for a float'')"
    by (rule C8_quotients_rounded_to_4_digits [OF u, THEN conjunct2, THEN conjunct1, THEN mp])
      (intro conjI small big disjI2 disjI1 o)
  have "4300 < length (str_nat (10 ^ 4300))" by (rule str_nat_length_gt) (rule order_refl)
  then have long: "int_max_str_digits < length (str_nat (10 ^ 4300))"
    by (simp only: int_max_str_digits_def)
  have r3: "\<exists>e. parse_bounds (bounds_string (10 ^ 4300) 0 1 1) ?u = Inl e
          \<and> exc_class e = ValueError"
    by (rule C8_quotients_rounded_to_4_digits [OF u, THEN conjunct2, THEN conjunct2, THEN mp])
      (rule disjI1, rule long)
  from r1 s r2 r3 show ?thesis by (intro conjI)
qed

text \<open>
  C9. When the integers extracted from a geometry string are fewer or more than four,
  the normalisation raises the assertion's error and returns nothing. The extraction
  itself raises when a digit run has more than 4300 digits (the \<open>ValueError\<close> of \<open>int\<close>,
  before the assertion), so whenever the number of digit runs is not four the
  normalisation raises one of the two and returns nothing. When exactly four integers are
  extracted and the width of the window is 0, it raises \<open>ZeroDivisionError\<close>; in general,
  with a width or a height of 0 it raises (\<open>ValueError\<close>, the assertion's error,
  \<open>ZeroDivisionError\<close>, or \<open>OverflowError\<close> from an earlier division) and never returns
  coordinates. An error of the normalisation is the error of \<open>parse_xml_element\<close> on the
  element that carries the geometry, so no tree is returned.
\<close>

theorem C9_malformed_geometry_and_zero_window_fail:
  "(map_int (findall_digits s) = Inr bs \<and> length bs \<noteq> 4 \<longrightarrow>
      parse_bounds s wsize = Inl (Exc AssertionError []))
   \<and> (length (findall_digits s1) \<noteq> 4 \<longrightarrow>
      (\<exists>e. parse_bounds s1 wsize1 = Inl e
          \<and> (exc_class e = AssertionError \<or> exc_class e = ValueError)))
   \<and> ((\<exists>r \<in> set (findall_digits s2). int_max_str_digits < length r) \<longrightarrow>
        (\<exists>e. parse_bounds s2 wsize2 = Inl e \<and> exc_class e = ValueError))
   \<and> (map_int (findall_digits s3) = Inr bs3 \<and> length bs3 = 4 \<and> width wsize3 = 0 \<longrightarrow>
        parse_bounds s3 wsize3 = Inl (Exc ZeroDivisionError ''division by zero''))
   \<and> (width wsize4 = 0 \<or> height wsize4 = 0 \<longrightarrow>
        (\<exists>e. parse_bounds s4 wsize4 = Inl e
            \<and> (exc_class e = ValueError \<or> exc_class e = AssertionError
                \<or> exc_class e = ZeroDivisionError \<or> exc_class e = OverflowError)))
   \<and> (map_of atts ''bounds'' = Some s0 \<and> parse_bounds s0 wsize0 = Inl e0 \<longrightarrow>
        parse_xml_element (Element tg atts elems) wsize0 indexes = Inl e0)"
proof (intro conjI impI)
  assume "map_int (findall_digits s) = Inr bs \<and> length bs \<noteq> 4"
  then show "parse_bounds s wsize = Inl (Exc AssertionError [])"
    by (simp add: parse_bounds_def)
next
  assume n: "length (findall_digits s1) \<noteq> 4"
  show "\<exists>e. parse_bounds s1 wsize1 = Inl e
          \<and> (exc_class e = AssertionError \<or> exc_class e = ValueError)"
  proof (cases "map_int (findall_digits s1)")
    case (Inl e)
    with map_int_Inl [OF Inl] show ?thesis by (simp add: parse_bounds_def)
  next
    case (Inr bs)
    with map_int_Inr [OF Inr] n show ?thesis by (simp add: parse_bounds_def)
  qed
next
  assume "\<exists>r \<in> set (findall_digits s2). int_max_str_digits < length r"
  then show "\<exists>e. parse_bounds s2 wsize2 = Inl e \<and> exc_class e = ValueError"
    by (rule parse_bounds_too_long)
next
  assume "map_int (findall_digits s3) = Inr bs3 \<and> length bs3 = 4 \<and> width wsize3 = 0"
  then show "parse_bounds s3 wsize3 = Inl (Exc ZeroDivisionError ''division by zero'')"
    by (simp add: parse_bounds_def int_truediv_def)
next
  assume z: "width wsize4 = 0 \<or> height wsize4 = 0"
  have "\<exists>e. parse_bounds s4 wsize4 = Inl e"
  proof (cases "map_int (findall_digits s4)")
    case (Inl e)
    then show ?thesis by (simp add: parse_bounds_def)
  next
    case (Inr bs)
    show ?thesis
    proof (cases "length bs = 4")
      case False
      with Inr show ?thesis by (simp add: parse_bounds_def)
    next
      case True
      with Inr z show ?thesis
        by (auto simp: parse_bounds_def int_truediv_def [of _ 0] split: sum.splits)
    qed
  qed
  then obtain e where e: "parse_bounds s4 wsize4 = Inl e" by blast
  from parse_bounds_Inl_class [OF e] e
  show "\<exists>e. parse_bounds s4 wsize4 = Inl e
            \<and> (exc_class e = ValueError \<or> exc_class e = AssertionError
                \<or> exc_class e = ZeroDivisionError \<or> exc_class e = OverflowError)"
    by blast
next
  assume "map_of atts ''bounds'' = Some s0 \<and> parse_bounds s0 wsize0 = Inl e0"
  then show "parse_xml_element (Element tg atts elems) wsize0 indexes = Inl e0"
    by simp
qed

theorem C9_malformed_geometry_and_zero_window_fail_witness:
  "map_int (findall_digits ''[1,2][3]'') = Inr [1, 2, 3]
   \<and> parse_bounds ''[1,2][3]'' \<lparr>width = 1080, height = 2340\<rparr> = Inl (Exc AssertionError [])
   \<and> (\<exists>e. parse_bounds ''[1,2][3]'' \<lparr>width = 1080, height = 2340\<rparr> = Inl e
         \<and> (exc_class e = AssertionError \<or> exc_class e = ValueError))
   \<and> (\<exists>e. parse_bounds (replicate 4301 CHR ''1'') \<lparr>width = 1080, height = 2340\<rparr> = Inl e
         \<and> exc_class e = ValueError)
   \<and> map_int (findall_digits ''[0,0][1080,2340]'') = Inr [0, 0, 1080, 2340]
   \<and> parse_bounds ''[0,0][1080,2340]'' \<lparr>width = 0, height = 2340\<rparr>
       = Inl (Exc ZeroDivisionError ''division by zero'')
   \<and> parse_bounds ''[0,0][1080,2340]'' \<lparr>width = 1080, height = 0\<rparr>
       = Inl (Exc ZeroDivisionError ''division by zero'')
   \<and> (\<exists>e. parse_bounds ''[0,0][1080,2340]'' \<lparr>width = 1080, height = 0\<rparr> = Inl e
         \<and> (exc_class e = ValueError \<or> exc_class e = AssertionError
             \<or> exc_class e = ZeroDivisionError \<or> exc_class e = OverflowError))
   \<and> parse_xml_element (Element ''node'' [(''bounds'', ''[1,2][3]'')] [])
        \<lparr>width = 1080, height = 2340\<rparr> [0] = Inl (Exc AssertionError [])"
proof -
  let ?w = "\<lparr>width = 1080, height = 2340\<rparr>"
  let ?long = "replicate 4301 CHR ''1''"
  have f3: "findall_digits ''[1,2][3]'' = [''1'', ''2'', ''3'']"
    by (simp add: findall_digits_def is_digit_def)
  have m3: "map_int (findall_digits ''[1,2][3]'') = Inr [1, 2, 3]"
    and m4: "map_int (findall_digits ''[0,0][1080,2340]'') = Inr [0, 0, 1080, 2340]"
    by (simp_all add: bounds_eval)
  have fl: "findall_digits ?long = [?long]"
    by (rule findall_digits_replicate) (simp_all add: is_digit_def)
  have h0: "parse_bounds ''[0,0][1080,2340]'' \<lparr>width = 1080, height = 0\<rparr>
       = Inl (Exc ZeroDivisionError ''division by zero'')"
    by (simp add: bounds_eval float_eval)
  have a: "parse_bounds ''[1,2][3]'' ?w = Inl (Exc AssertionError [])"
    by (rule C9_malformed_geometry_and_zero_window_fail
        [where bs = "[1, 2, 3]", THEN conjunct1, THEN mp])
      (simp add: m3)
  have e1: "\<exists>e. parse_bounds ''[1,2][3]'' ?w = Inl e
         \<and> (exc_class e = AssertionError \<or> exc_class e = ValueError)"
    by (rule C9_malformed_geometry_and_zero_window_fail
        [THEN conjunct2, THEN conjunct1, THEN mp])
      (simp add: f3)
  have b: "\<exists>e. parse_bounds ?long ?w = Inl e \<and> exc_class e = ValueError"
    by (rule C9_malformed_geometry_and_zero_window_fail
        [THEN conjunct2, THEN conjunct2, THEN conjunct1, THEN mp])
      (simp add: fl int_max_str_digits_def)
  have c: "parse_bounds ''[0,0][1080,2340]'' \<lparr>width = 0, height = 2340\<rparr>
       = Inl (Exc ZeroDivisionError ''division by zero'')"
    by (rule C9_malformed_geometry_and_zero_window_fail
        [where ?bs3.0 = "[0, 0, 1080, 2340]",
         THEN conjunct2, THEN conjunct2, THEN conjunct2, THEN conjunct1, THEN mp])
      (simp add: m4)
  have e5: "\<exists>e. parse_bounds ''[0,0][1080,2340]'' \<lparr>width = 1080, height = 0\<rparr> = Inl e
         \<and> (exc_class e = ValueError \<or> exc_class e = AssertionError
             \<or> exc_class e = ZeroDivisionError \<or> exc_class e = OverflowError)"
    by (rule C9_malformed_geometry_and_zero_window_fail
        [THEN conjunct2, THEN conjunct2, THEN conjunct2, THEN conjunct2, THEN conjunct1, THEN mp])
      simp
  have d: "parse_xml_element (Element ''node'' [(''bounds'', ''[1,2][3]'')] []) ?w [0]
       = Inl (Exc AssertionError [])"
    by (rule C9_malformed_geometry_and_zero_window_fail
        [where ?s0.0 = "''[1,2][3]''",
         THEN conjunct2, THEN conjunct2, THEN conjunct2, THEN conjunct2, THEN conjunct2, THEN mp])
      (simp add: a)
  from m3 a e1 b m4 c h0 e5 d show ?thesis by (intro conjI)
qed

section \<open>Properties of the store model\<close>

lemma parse_children_st_pure:
  assumes IH: "\<And>c a h. c \<in> set els \<Longrightarrow> a < length h \<Longrightarrow>
      \<exists>ext. parse_xml_element_st c w a h = (parse_xml_element c w (h ! a), h @ ext)"
  shows "a < length h \<Longrightarrow>
      \<exists>ext. parse_children_st els w a k h = (parse_children els w (h ! a) k, h @ ext)"
  using IH
proof (induction els arbitrary: k h)
  case Nil
  then show ?case by simp
next
  case (Cons c els)
  let ?h1 = "h @ [h ! a @ [int k]]"
  have a1: "length h < length ?h1" by simp
  from Cons.prems(2) [OF _ a1, of c] obtain ext1 where
    c: "parse_xml_element_st c w (length h) ?h1 = (parse_xml_element c w (h ! a @ [int k]), ?h1 @ ext1)"
    by auto
  let ?h2 = "?h1 @ ext1"
  from Cons.prems(1) have a2: "a < length ?h2" by simp
  from Cons.prems(1) have r: "?h2 ! a = h ! a" by (simp add: nth_append)
  have "\<exists>ext. parse_children_st els w a (Suc k) ?h2
      = (parse_children els w (?h2 ! a) (Suc k), ?h2 @ ext)"
  proof (rule Cons.IH [OF a2])
    fix c' a' and h' :: store
    assume "c' \<in> set els" "a' < length h'"
    then show "\<exists>ext. parse_xml_element_st c' w a' h' = (parse_xml_element c' w (h' ! a'), h' @ ext)"
      using Cons.prems(2) [of c' a' h'] by simp
  qed
  then obtain ext2 where
    cs: "parse_children_st els w a (Suc k) ?h2 = (parse_children els w (h ! a) (Suc k), ?h2 @ ext2)"
    unfolding r by blast
  show ?case
  proof (cases "parse_xml_element c w (h ! a @ [int k])")
    case (Inl e)
    then have "parse_children_st (c # els) w a k h
        = (parse_children (c # els) w (h ! a) k, h @ ([h ! a @ [int k]] @ ext1))"
      using c by (simp add: list_concat_def)
    then show ?thesis by blast
  next
    case (Inr n)
    then have "parse_children_st (c # els) w a k h
        = (parse_children (c # els) w (h ! a) k, h @ ([h ! a @ [int k]] @ ext1 @ ext2))"
      using c cs by (simp add: list_concat_def split: sum.splits)
    then show ?thesis by blast
  qed
qed

lemma parse_xml_element_st_pure:
  "a < length h \<Longrightarrow>
   \<exists>ext. parse_xml_element_st e w a h = (parse_xml_element e w (h ! a), h @ ext)"
proof (induction e arbitrary: a h)
  case (Element tg atts els)
  have "\<exists>ext. parse_children_st els w a 0 h = (parse_children els w (h ! a) 0, h @ ext)"
    using Element.prems
  proof (rule parse_children_st_pure [rotated])
    fix c a' and h' :: store
    assume "c \<in> set els" "a' < length h'"
    then show "\<exists>ext. parse_xml_element_st c w a' h' = (parse_xml_element c w (h' ! a'), h' @ ext)"
      by (rule Element.IH)
  qed
  then obtain ext where
    cs: "parse_children_st els w a 0 h = (parse_children els w (h ! a) 0, h @ ext)" by blast
  have "parse_xml_element_st (Element tg atts els) w a h
      = (parse_xml_element (Element tg atts els) w (h ! a), h @ [])
    \<or> parse_xml_element_st (Element tg atts els) w a h
      = (parse_xml_element (Element tg atts els) w (h ! a), h @ ext)"
    using cs by (auto simp: Let_def split: sum.splits option.splits)
  then show ?case by blast
qed

text \<open>
  C10. From a store whose default list is \<open>[0]\<close>, two calls of \<open>parse_xml\<close> in a row
  each return what the store-free function \<open>parse_xml\<close> returns for their own arguments,
  a tree or an error; the default list is \<open>[0]\<close> after the first call and after the
  second; every list that was in the store before a call is unchanged after it (a call
  only allocates); so two calls with the same arguments return equal results.
\<close>

theorem C10_default_indexes_never_mutated:
  assumes "default_indexes < length h" and "h ! default_indexes = [0]"
    and "parse_xml_st fromstring xml1 wsize1 h = (r1, h1)"
    and "parse_xml_st fromstring xml2 wsize2 h1 = (r2, h2)"
  shows "r1 = parse_xml fromstring xml1 wsize1
     \<and> r2 = parse_xml fromstring xml2 wsize2
     \<and> h1 ! default_indexes = [0] \<and> h2 ! default_indexes = [0]
     \<and> take (length h) h1 = h \<and> take (length h1) h2 = h1
     \<and> (xml1 = xml2 \<and> wsize1 = wsize2 \<longrightarrow> r1 = r2)"
proof -
  have step: "r = parse_xml fromstring x w \<and> g' ! default_indexes = [0]
      \<and> default_indexes < length g' \<and> take (length g) g' = g"
    if "default_indexes < length g" "g ! default_indexes = [0]"
      "parse_xml_st fromstring x w g = (r, g')" for g g' x w r
  proof (cases "fromstring x")
    case (Inl e)
    with that show ?thesis by (simp add: parse_xml_st_def parse_xml_def)
  next
    case (Inr el)
    from parse_xml_element_st_pure [OF that(1), of el w] obtain ext where
      "parse_xml_element_st el w default_indexes g
         = (parse_xml_element el w (g ! default_indexes), g @ ext)" by blast
    with that Inr show ?thesis
      by (auto simp: parse_xml_st_def parse_xml_def nth_append)
  qed
  from step [OF assms(1,2,3)] have 1: "r1 = parse_xml fromstring xml1 wsize1"
    "h1 ! default_indexes = [0]" "default_indexes < length h1" "take (length h) h1 = h"
    by simp_all
  from step [OF 1(3) 1(2) assms(4)] have 2: "r2 = parse_xml fromstring xml2 wsize2"
    "h2 ! default_indexes = [0]" "take (length h1) h2 = h1"
    by simp_all
  from 1 2 show ?thesis by simp
qed

lemma sample_parse_st:
  "parse_xml_st sample_fromstring sample_xml
      \<lparr>width = 1080, height = 2340\<rparr> init_store
    = (Inr sample_tree, [[0], [0, 0], [0, 0, 0], [0, 1]])"
  by (simp add: parse_xml_st_def sample_fromstring_def sample_root_def sample_tree_def
      init_store_def default_indexes_def list_concat_def sample_bounds key_eval)

lemma sample_parse_st_again:
  "parse_xml_st sample_fromstring sample_xml
      \<lparr>width = 1080, height = 2340\<rparr> [[0], [0, 0], [0, 0, 0], [0, 1]]
    = (Inr sample_tree, [[0], [0, 0], [0, 0, 0], [0, 1], [0, 0], [0, 0, 0], [0, 1]])"
  by (simp add: parse_xml_st_def sample_fromstring_def sample_root_def sample_tree_def
      init_store_def default_indexes_def list_concat_def sample_bounds key_eval)

theorem C10_default_indexes_never_mutated_witness:
  "parse_xml_st sample_fromstring sample_xml
      \<lparr>width = 1080, height = 2340\<rparr> init_store
    = (Inr sample_tree, [[0], [0, 0], [0, 0, 0], [0, 1]])
   \<and> parse_xml_st sample_fromstring sample_xml
      \<lparr>width = 1080, height = 2340\<rparr> [[0], [0, 0], [0, 0, 0], [0, 1]]
    = (Inr sample_tree, [[0], [0, 0], [0, 0, 0], [0, 1], [0, 0], [0, 0, 0], [0, 1]])
   \<and> parse_xml sample_fromstring sample_xml
      \<lparr>width = 1080, height = 2340\<rparr> = Inr sample_tree
   \<and> init_store ! default_indexes = [0]"
proof -
  have a: "default_indexes < length init_store" "init_store ! default_indexes = [0]"
    by (simp_all add: default_indexes_def init_store_def)
  from C10_default_indexes_never_mutated [OF a sample_parse_st sample_parse_st_again]
  show ?thesis using a sample_parse_st sample_parse_st_again by simp
qed

end
